theory Spec2Isabelle
  imports Complex_Main "HOL-Library.Log_Nat"
begin

section \<open>Text helpers\<close>

text \<open>
  Python strings are modelled as \<open>string\<close>; a \<open>char\<close> stands for a code point
  below 256. \<open>is_space\<close> is \<^verbatim>\<open>str.isspace\<close> on that range, which is also what
  \<^verbatim>\<open>str.strip()\<close> removes.
\<close>

definition is_space :: "char \<Rightarrow> bool" where
  "is_space c \<longleftrightarrow> of_char c \<in> {9, 10, 11, 12, 13, 28, 29, 30, 31, 32, 133, 160 :: nat}"

definition strip :: "string \<Rightarrow> string" where
  "strip s = rev (dropWhile is_space (rev (dropWhile is_space s)))"

text \<open>\<^verbatim>\<open>bool(s)\<close> for an optional string: neither \<^verbatim>\<open>None\<close> nor empty.\<close>

fun truthy :: "string option \<Rightarrow> bool" where
  "truthy None = False"
| "truthy (Some s) = (s \<noteq> [])"

definition digit_char :: "nat \<Rightarrow> char" where
  "digit_char d = ''0123456789'' ! d"

fun str_nat :: "nat \<Rightarrow> string" where
  "str_nat n = (if n < 10 then [digit_char n] else str_nat (n div 10) @ [digit_char (n mod 10)])"

declare str_nat.simps [simp del]

definition str_int :: "int \<Rightarrow> string" where
  "str_int i = (if i < 0 then CHR ''-'' # str_nat (nat (- i)) else str_nat (nat i))"

text \<open>\<^verbatim>\<open>sep.join(xs)\<close>\<close>

fun join :: "string \<Rightarrow> string list \<Rightarrow> string" where
  "join sep [] = []"
| "join sep [x] = x"
| "join sep (x # y # ys) = x @ sep @ join sep (y # ys)"

text \<open>\<^verbatim>\<open>os.path.basename\<close> (POSIX): what follows the last slash.\<close>

definition basename :: "string \<Rightarrow> string" where
  "basename p = rev (takeWhile (\<lambda>c. c \<noteq> CHR ''/'') (rev p))"

text \<open>
  \<^verbatim>\<open>os.path.join(d, name)\<close> (POSIX) for a relative \<open>name\<close>, which a basename always
  is: a slash is inserted unless \<open>d\<close> is empty or already ends with one.
\<close>

definition path_join :: "string \<Rightarrow> string \<Rightarrow> string" where
  "path_join d name = (if d = [] \<or> last d = CHR ''/'' then d @ name else d @ ''/'' @ name)"


section \<open>Code validator (services/code\_validator.py)\<close>

text \<open>
  \<^verbatim>\<open>ast.parse\<close> and \<^verbatim>\<open>re.search\<close> belong to the Python library; the validator is
  modelled with both as parameters. A parse yields a tree, or raises \<^verbatim>\<open>SyntaxError\<close>
  (with its \<^verbatim>\<open>lineno\<close>, \<^verbatim>\<open>msg\<close> and \<^verbatim>\<open>str(e)\<close>), or raises another exception
  (\<^verbatim>\<open>ValueError\<close> on a null byte before Python 3.12, \<^verbatim>\<open>RecursionError\<close> or
  \<^verbatim>\<open>MemoryError\<close> on deep nesting), of which \<^verbatim>\<open>str(e)\<close> is kept. Of the tree only the
  statement nodes are kept, since \<^verbatim>\<open>check_structure\<close> tests for statement classes
  only; the bases of a class are kept as expressions.
\<close>

record syntax_error =
  lineno :: "int option"
  msg :: string
  str_of_error :: string

datatype expr = Name string | Other_expr

datatype node =
    Module "node list"
  | ImportFrom "string option"
  | Import "string list"
  | ClassDef "expr list" "node list"
  | FunctionDef string "node list"
  | Other_node "node list"

datatype parse_outcome = Parsed node | SyntaxError syntax_error | Other_exception string

type_synonym parser = "string \<Rightarrow> parse_outcome"
type_synonym searcher = "string \<Rightarrow> string \<Rightarrow> bool"

definition bs :: char where
  "bs = CHR 0x5C"

definition wb :: string where
  "wb = [bs, CHR ''b'']"

definition ws :: string where
  "ws = [bs, CHR ''s'']"

definition dot :: string where
  "dot = [bs, CHR ''.'']"

definition lpar :: string where
  "lpar = [bs, CHR ''('']"

definition DANGEROUS_PATTERNS :: "string list" where
  "DANGEROUS_PATTERNS =
    [ wb @ ''os'' @ dot,
      wb @ ''sys'' @ dot,
      wb @ ''subprocess'' @ dot,
      wb @ ''open'' @ ws @ ''*'' @ lpar,
      wb @ ''eval'' @ ws @ ''*'' @ lpar,
      wb @ ''exec'' @ ws @ ''*'' @ lpar,
      wb @ ''compile'' @ ws @ ''*'' @ lpar,
      wb @ ''__import__'' @ ws @ ''*'' @ lpar,
      wb @ ''import'' @ ws @ ''+os'' @ wb,
      wb @ ''import'' @ ws @ ''+sys'' @ wb,
      wb @ ''import'' @ ws @ ''+subprocess'' @ wb,
      wb @ ''from'' @ ws @ ''+os'' @ wb,
      wb @ ''from'' @ ws @ ''+sys'' @ wb,
      wb @ ''from'' @ ws @ ''+subprocess'' @ wb,
      wb @ ''shutil'' @ dot,
      wb @ ''requests'' @ dot,
      wb @ ''urllib'' @ dot,
      wb @ ''socket'' @ dot,
      wb @ ''pickle'' @ dot ]"

text \<open>The loop of \<^verbatim>\<open>check_dangerous_patterns\<close>, with \<open>found\<close> as its accumulator.\<close>

fun pattern_loop :: "searcher \<Rightarrow> string \<Rightarrow> string list \<Rightarrow> string list \<Rightarrow> string list" where
  "pattern_loop re_search code [] found = found"
| "pattern_loop re_search code (pattern # ps) found =
     pattern_loop re_search code ps (if re_search pattern code then found @ [pattern] else found)"

definition check_dangerous_patterns :: "searcher \<Rightarrow> string \<Rightarrow> bool \<times> string list" where
  "check_dangerous_patterns re_search code =
     (let found_patterns = pattern_loop re_search code DANGEROUS_PATTERNS []
      in (length found_patterns = 0, found_patterns))"

definition syntax_message :: "syntax_error \<Rightarrow> string" where
  "syntax_message e =
     ''Syntax error at line '' @ (case lineno e of None \<Rightarrow> ''None'' | Some n \<Rightarrow> str_int n)
       @ '': '' @ msg e"

text \<open>\<^verbatim>\<open>check_syntax\<close> catches \<^verbatim>\<open>SyntaxError\<close> only: any other exception of the
  parser leaves the function, and is the \<open>Inl\<close> of the result.\<close>

definition check_syntax :: "parser \<Rightarrow> string \<Rightarrow> string + bool \<times> string" where
  "check_syntax parse code =
     (case parse code of
        Parsed tree \<Rightarrow> Inr (True, [])
      | SyntaxError e \<Rightarrow> Inr (False, syntax_message e)
      | Other_exception x \<Rightarrow> Inl x)"

text \<open>\<^verbatim>\<open>ast.iter_child_nodes\<close> and the breadth-first \<^verbatim>\<open>ast.walk\<close>.\<close>

fun iter_child_nodes :: "node \<Rightarrow> node list" where
  "iter_child_nodes (Module body) = body"
| "iter_child_nodes (ImportFrom m) = []"
| "iter_child_nodes (Import names) = []"
| "iter_child_nodes (ClassDef bases body) = body"
| "iter_child_nodes (FunctionDef name body) = body"
| "iter_child_nodes (Other_node body) = body"

lemma size_iter_child_nodes: "size_list size (iter_child_nodes n) \<le> size n"
  by (cases n) simp_all

function walk_queue :: "node list \<Rightarrow> node list" where
  "walk_queue [] = []"
| "walk_queue (n # todo) = n # walk_queue (todo @ iter_child_nodes n)"
  by pat_completeness auto
termination
proof (relation "measure (size_list size)")
  show "wf (measure (size_list size :: node list \<Rightarrow> nat))"
    by simp
next
  fix n :: node and todo :: "node list"
  have "size_list size (iter_child_nodes n) \<le> size n"
    by (rule size_iter_child_nodes)
  then show "(todo @ iter_child_nodes n, n # todo) \<in> measure (size_list size)"
    by simp
qed

definition walk :: "node \<Rightarrow> node list" where
  "walk tree = walk_queue [tree]"

text \<open>The first loop of \<^verbatim>\<open>check_structure\<close>: the inner loop over the aliases of an
  \<^verbatim>\<open>import\<close> statement, and the outer loop, which stops at a matching
  \<^verbatim>\<open>from manim import ...\<close>.\<close>

fun alias_loop :: "string list \<Rightarrow> bool \<Rightarrow> bool" where
  "alias_loop [] has_manim_import = has_manim_import"
| "alias_loop (name # names) has_manim_import =
     (if name = ''manim'' then True else alias_loop names has_manim_import)"

fun import_loop :: "node list \<Rightarrow> bool \<Rightarrow> bool" where
  "import_loop [] has_manim_import = has_manim_import"
| "import_loop (ImportFrom m # nodes) has_manim_import =
     (if m = Some ''manim'' then True else import_loop nodes has_manim_import)"
| "import_loop (Import names # nodes) has_manim_import =
     import_loop nodes (alias_loop names has_manim_import)"
| "import_loop (n # nodes) has_manim_import = import_loop nodes has_manim_import"

text \<open>The second loop: the state is \<open>(has_scene_class, has_construct_method)\<close>.\<close>

fun item_loop :: "node list \<Rightarrow> bool \<Rightarrow> bool" where
  "item_loop [] has_construct_method = has_construct_method"
| "item_loop (FunctionDef name body # items) has_construct_method =
     (if name = ''construct'' then True else item_loop items has_construct_method)"
| "item_loop (item # items) has_construct_method = item_loop items has_construct_method"

fun base_loop :: "expr list \<Rightarrow> node list \<Rightarrow> bool \<times> bool \<Rightarrow> bool \<times> bool" where
  "base_loop [] body st = st"
| "base_loop (Name ident # bases) body (has_scene_class, has_construct_method) =
     (if ident = ''Scene'' then (True, item_loop body has_construct_method)
      else base_loop bases body (has_scene_class, has_construct_method))"
| "base_loop (Other_expr # bases) body st = base_loop bases body st"

fun class_loop :: "node list \<Rightarrow> bool \<times> bool \<Rightarrow> bool \<times> bool" where
  "class_loop [] st = st"
| "class_loop (ClassDef bases body # nodes) st = class_loop nodes (base_loop bases body st)"
| "class_loop (n # nodes) st = class_loop nodes st"

text \<open>\<^verbatim>\<open>check_structure\<close> catches every \<^verbatim>\<open>Exception\<close>.\<close>

definition check_structure :: "parser \<Rightarrow> string \<Rightarrow> bool \<times> string" where
  "check_structure parse code =
     (case parse code of
        SyntaxError e \<Rightarrow> (False, ''Error analyzing code structure: '' @ str_of_error e)
      | Other_exception x \<Rightarrow> (False, ''Error analyzing code structure: '' @ x)
      | Parsed tree \<Rightarrow>
          if \<not> import_loop (walk tree) False
          then (False, ''Code must import from manim (e.g., '' @ [CHR 0x27]
                         @ ''from manim import *'' @ [CHR 0x27] @ '')'')
          else (case class_loop (walk tree) (False, False) of
                  (has_scene_class, has_construct_method) \<Rightarrow>
                    if \<not> has_scene_class
                    then (False, ''Code must define a class that inherits from Scene'')
                    else if \<not> has_construct_method
                    then (False, ''Scene class must have a construct method'')
                    else (True, [])))"

text \<open>The result of \<^verbatim>\<open>validate_manim_code\<close> is \<open>Inr\<close> of the pair it returns, or
  \<open>Inl\<close> of the exception that \<^verbatim>\<open>check_syntax\<close> let through.\<close>

definition validate_manim_code :: "parser \<Rightarrow> searcher \<Rightarrow> string \<Rightarrow> string + bool \<times> string" where
  "validate_manim_code parse re_search code =
     (if code = [] \<or> strip code = [] then Inr (False, ''Code is empty'')
      else case check_syntax parse code of
        Inl raised \<Rightarrow> Inl raised
      | Inr (is_valid_syntax, syntax_error) \<Rightarrow>
          if \<not> is_valid_syntax then Inr (False, syntax_error)
          else case check_dangerous_patterns re_search code of
            (is_safe, dangerous_patterns) \<Rightarrow>
              if \<not> is_safe
              then Inr (False, ''Code contains dangerous patterns: '' @ join '', '' dangerous_patterns)
              else case check_structure parse code of
                (is_valid_structure, structure_error) \<Rightarrow>
                  if \<not> is_valid_structure then Inr (False, structure_error)
                  else Inr (True, []))"


section \<open>Binary64 arithmetic\<close>

text \<open>
  \<^verbatim>\<open>int((i / total_scenes) * 80)\<close> is computed in IEEE binary64: the true division of
  two integers and the product are each rounded to the nearest double, ties to even.
  Doubles are modelled as the rationals they denote. \<open>binade x\<close> is the exponent \<open>e\<close>
  with \<open>2^e \<le> x < 2^(e+1)\<close>; a double of that binade is a multiple of \<open>2^(e-52)\<close>.
  Subnormal numbers and overflow are not modelled (the values here lie between
  \<open>1 / total_scenes\<close> and 80).
\<close>

definition round_half_even :: "rat \<Rightarrow> int" where
  "round_half_even x =
     (let f = \<lfloor>x\<rfloor>; d = x - of_int f
      in if d < 1 / 2 then f else if 1 / 2 < d then f + 1 else if even f then f else f + 1)"

definition binade :: "rat \<Rightarrow> int" where
  "binade x =
     (case quotient_of x of (p, q) \<Rightarrow>
        let d = bitlen p - bitlen q
        in if 2 powi d \<le> x then d else d - 1)"

definition float64 :: "rat \<Rightarrow> rat" where
  "float64 x =
     (if x = 0 then 0
      else let u = 2 powi (binade \<bar>x\<bar> - 52)
           in sgn x * of_int (round_half_even (\<bar>x\<bar> / u)) * u)"

definition scene_progress :: "nat \<Rightarrow> nat \<Rightarrow> int" where
  "scene_progress i total_scenes =
     \<lfloor>float64 (float64 (of_nat i / of_nat total_scenes) * 80)\<rfloor>"


section \<open>Render service (services/render\_service.py)\<close>

text \<open>
  The subprocesses and the file system are read through an environment of oracles:
  what \<^verbatim>\<open>manim\<close> returns for a script, whether the thumbnail is there when
  \<^verbatim>\<open>render_scene\<close> looks for it, what \<^verbatim>\<open>ffprobe\<close> prints (\<open>None\<close> when reading
  it as a float raises), what the two \<^verbatim>\<open>ffmpeg\<close> runs of \<^verbatim>\<open>compile_project\<close> return,
  and \<^verbatim>\<open>os.path.exists\<close>. The temporary directories are not modelled.
\<close>

record manim_run =
  returncode :: int
  stderr :: string
  video_file :: "string option"

record env =
  output_dir :: string
  upload_dir :: string
  abspath :: "string \<Rightarrow> string"
  path_exists :: "string \<Rightarrow> bool"
  manim :: "string \<Rightarrow> string \<Rightarrow> manim_run"
  ffprobe :: "string \<Rightarrow> rat option"
  ffmpeg_concat :: "string list \<Rightarrow> int \<times> string"
  ffmpeg_mux :: "string \<Rightarrow> string \<Rightarrow> int \<times> string"

record render_result =
  video_url :: string
  thumbnail_url :: "string option"
  duration :: rat

definition get_video_duration :: "env \<Rightarrow> string \<Rightarrow> rat" where
  "get_video_duration env video_path =
     (case ffprobe env video_path of Some d \<Rightarrow> d | None \<Rightarrow> 5)"

text \<open>
  \<open>Inl\<close> carries \<^verbatim>\<open>str(e)\<close> of the exception raised. Writing a \<^verbatim>\<open>None\<close> code to the
  script file raises \<^verbatim>\<open>TypeError\<close>.
\<close>

definition render_scene :: "env \<Rightarrow> string option \<Rightarrow> string \<Rightarrow> string + render_result" where
  "render_scene env code scene_id =
     (case code of
        None \<Rightarrow> Inl ''write() argument must be str, not None''
      | Some script \<Rightarrow>
          let process = manim env script scene_id
          in if returncode process \<noteq> 0
             then Inl (''Manim render failed: ''
                        @ (if stderr process \<noteq> [] then stderr process else ''Unknown render error''))
             else if video_file process = None
             then Inl ''No video file generated''
             else
               let output_filename = scene_id @ ''.mp4'';
                   output_path = path_join (output_dir env) output_filename;
                   thumbnail_filename = scene_id @ ''_thumb.png'';
                   thumbnail_path = path_join (output_dir env) thumbnail_filename;
                   duration = get_video_duration env output_path
               in Inr \<lparr> video_url = ''/outputs/'' @ output_filename,
                         thumbnail_url =
                           (if path_exists env thumbnail_path
                            then Some (''/outputs/'' @ thumbnail_filename) else None),
                         duration = duration \<rparr>)"

text \<open>
  \<^verbatim>\<open>compile_project\<close> reads only \<^verbatim>\<open>video_url\<close> of each scene, so it is given the list
  of these. Besides its result it returns what it did outside the temporary
  directory: the \<^verbatim>\<open>ffmpeg\<close> runs (the concat run with the lines of the manifest it was
  given) and the copy to the final output path.
\<close>

datatype action =
    Concat "string list" "int \<times> string"
  | Mux string "int \<times> string"
  | Copy string

definition manifest_line :: "string \<Rightarrow> string" where
  "manifest_line video_path = ''file '' @ [CHR 0x27] @ video_path @ [CHR 0x27] @ ''\<newline>''"

definition video_path_of :: "env \<Rightarrow> string \<Rightarrow> string" where
  "video_path_of env url = path_join (abspath env (output_dir env)) (basename url)"

text \<open>The loop writing \<^verbatim>\<open>files.txt\<close>: the state is the lines written so far and
  \<^verbatim>\<open>video_count\<close>.\<close>

fun manifest_loop :: "env \<Rightarrow> string option list \<Rightarrow> string list \<times> nat \<Rightarrow> string list \<times> nat" where
  "manifest_loop env [] st = st"
| "manifest_loop env (None # urls) st = manifest_loop env urls st"
| "manifest_loop env (Some url # urls) (file_list, video_count) =
     manifest_loop env urls
       (if url \<noteq> [] \<and> path_exists env (video_path_of env url)
        then (file_list @ [manifest_line (video_path_of env url)], video_count + 1)
        else (file_list, video_count))"

text \<open>What happens after a successful concat: the audio is muxed in when an audio url
  is given and its file exists, otherwise the video is copied as it is. The result of
  the mux run is not looked at.\<close>

definition add_audio :: "env \<Rightarrow> string option \<Rightarrow> string \<Rightarrow> action list" where
  "add_audio env audio_url output_path =
     (case audio_url of
        None \<Rightarrow> [Copy output_path]
      | Some url \<Rightarrow>
          if url = [] then [Copy output_path]
          else
            let audio_path = path_join (abspath env (upload_dir env)) (basename url)
            in if path_exists env audio_path
               then [Mux audio_path (ffmpeg_mux env audio_path output_path)]
               else [Copy output_path])"

definition compile_project ::
  "env \<Rightarrow> string option list \<Rightarrow> string \<Rightarrow> string option \<Rightarrow> action list \<times> (string + string)" where
  "compile_project env scenes project_id audio_url =
     (if scenes = [] then ([], Inl ''No scenes to compile'')
      else case manifest_loop env scenes ([], 0) of
        (file_list, video_count) \<Rightarrow>
          if video_count = 0 then ([], Inl ''No rendered video files found to compile'')
          else
            let output_filename = project_id @ ''_final.mp4'';
                output_path = path_join (abspath env (output_dir env)) output_filename;
                process = ffmpeg_concat env file_list
            in if fst process \<noteq> 0
               then ([Concat file_list process],
                     Inl (''Video concatenation failed: '' @ snd process))
               else ([Concat file_list process] @ add_audio env audio_url output_path,
                     Inr (''/outputs/'' @ output_filename)))"


section \<open>Render jobs (routers/render.py)\<close>

text \<open>
  The three in-memory dictionaries are the fields of one state. Scene and job
  dictionaries are records; since both have keys of the same name, the fields of a
  scene start with \<open>s_\<close>, those of a job with \<open>j_\<close>, those of a project with
  \<open>p_\<close>. The timestamps \<^verbatim>\<open>created_at\<close> and \<^verbatim>\<open>updated_at\<close> are left out. A run of a
  background task is modelled on its own, with no other request served while it waits
  for a subprocess.

  The state also holds a log of effects, to which every assignment to a field of a job
  and every call of the render service is appended in program order, and the queue of
  background tasks.
\<close>

datatype SceneStatus = pending | generating | rendering | completed | failed

record scene =
  s_id :: string
  s_project_id :: string
  s_prompt :: string
  s_code :: "string option"
  s_video_url :: "string option"
  s_thumbnail_url :: "string option"
  s_duration_seconds :: rat
  s_order_index :: int
  s_status :: SceneStatus
  s_error_message :: "string option"

record project =
  p_id :: string
  p_name :: string
  p_description :: "string option"
  p_scene_count :: int
  p_scenes :: "string list"
  p_audio_url :: "string option"

record job =
  j_id :: string
  j_scene_id :: "string option"
  j_project_id :: "string option"
  j_status :: string
  j_progress :: int
  j_output_url :: "string option"
  j_error_message :: "string option"

datatype job_field = Status string | Progress int | Output_url string | Error_message string

datatype effect =
    Job_write string job_field
  | Render_scene string "string + render_result"
  | Compile_project "string option list" "action list \<times> (string + string)"

datatype task =
    Process_render string string
  | Process_export string string
  | Process_render_all_and_combine string string

record state =
  projects_db :: "string \<rightharpoonup> project"
  scenes_db :: "string \<rightharpoonup> scene"
  render_jobs :: "string \<rightharpoonup> job"
  background_tasks :: "task list"
  effects :: "effect list"

text \<open>A scene or job variable of the source is a reference to a dictionary held in the
  store; it is modelled by its key, and read with \<open>scene_of\<close>. The background tasks take
  their references from the store, so the key is always there.\<close>

definition scene_of :: "state \<Rightarrow> string \<Rightarrow> scene" where
  "scene_of st ref = the (scenes_db st ref)"

fun assign :: "job_field \<Rightarrow> job \<Rightarrow> job" where
  "assign (Status v) j = j\<lparr>j_status := v\<rparr>"
| "assign (Progress v) j = j\<lparr>j_progress := v\<rparr>"
| "assign (Output_url v) j = j\<lparr>j_output_url := Some v\<rparr>"
| "assign (Error_message v) j = j\<lparr>j_error_message := Some v\<rparr>"

definition job_write :: "string \<Rightarrow> job_field \<Rightarrow> state \<Rightarrow> state" where
  "job_write job_id w st =
     st\<lparr>render_jobs := (render_jobs st)(job_id := map_option (assign w) (render_jobs st job_id)),
        effects := effects st @ [Job_write job_id w]\<rparr>"

definition scene_write :: "string \<Rightarrow> (scene \<Rightarrow> scene) \<Rightarrow> state \<Rightarrow> state" where
  "scene_write ref f st = st\<lparr>scenes_db := (scenes_db st)(ref \<mapsto> f (scene_of st ref))\<rparr>"

definition log_effect :: "effect \<Rightarrow> state \<Rightarrow> state" where
  "log_effect e st = st\<lparr>effects := effects st @ [e]\<rparr>"

text \<open>A sequence of statements.\<close>

definition seq :: "(state \<Rightarrow> state) list \<Rightarrow> state \<Rightarrow> state" where
  "seq steps st = fold (\<lambda>step. step) steps st"

definition rendered :: "render_result \<Rightarrow> scene \<Rightarrow> scene" where
  "rendered result s =
     s\<lparr>s_video_url := Some (video_url result),
       s_thumbnail_url := thumbnail_url result,
       s_duration_seconds := duration result,
       s_status := completed\<rparr>"

definition render_failed :: "string \<Rightarrow> scene \<Rightarrow> scene" where
  "render_failed e s = s\<lparr>s_status := failed, s_error_message := Some e\<rparr>"

text \<open>\<^verbatim>\<open>process_render\<close>. The two lookups before \<^verbatim>\<open>try\<close> raise \<^verbatim>\<open>KeyError\<close> out of
  the task when a key is missing; nothing has been written then.\<close>

definition process_render :: "env \<Rightarrow> string \<Rightarrow> string \<Rightarrow> state \<Rightarrow> state" where
  "process_render env job_id scene_id st =
     (if render_jobs st job_id = None \<or> scenes_db st scene_id = None then st
      else
        let st1 = seq [job_write job_id (Status ''rendering''),
                       job_write job_id (Progress 10),
                       scene_write scene_id (\<lambda>s. s\<lparr>s_status := rendering\<rparr>)] st;
            outcome = render_scene env (s_code (scene_of st1 scene_id)) scene_id;
            st2 = log_effect (Render_scene scene_id outcome) st1
        in case outcome of
             Inr result \<Rightarrow>
               seq [job_write job_id (Progress 100),
                    job_write job_id (Status ''completed''),
                    job_write job_id (Output_url (video_url result)),
                    scene_write scene_id (rendered result)] st2
           | Inl e \<Rightarrow>
               seq [job_write job_id (Status ''failed''),
                    job_write job_id (Error_message e),
                    scene_write scene_id (render_failed e)] st2)"

text \<open>The scenes of a project that are in the store, sorted by \<^verbatim>\<open>order_index\<close>
  (\<^verbatim>\<open>list.sort\<close> is stable, as \<open>sort_key\<close> is).\<close>

definition scene_refs :: "state \<Rightarrow> project \<Rightarrow> string list" where
  "scene_refs st project =
     sort_key (\<lambda>sid. s_order_index (scene_of st sid))
       (filter (\<lambda>sid. scenes_db st sid \<noteq> None) (p_scenes project))"

definition process_export :: "env \<Rightarrow> string \<Rightarrow> string \<Rightarrow> state \<Rightarrow> state" where
  "process_export env job_id project_id st =
     (case projects_db st project_id of
        None \<Rightarrow> st
      | Some project \<Rightarrow>
          if render_jobs st job_id = None then st
          else
            let st1 = seq [job_write job_id (Status ''compiling''),
                           job_write job_id (Progress 10)] st;
                scenes = scene_refs st1 project;
                urls = map (\<lambda>ref. s_video_url (scene_of st1 ref)) scenes;
                outcome = compile_project env urls project_id (p_audio_url project);
                st2 = log_effect (Compile_project urls outcome) st1
            in case snd outcome of
                 Inr url \<Rightarrow>
                   seq [job_write job_id (Progress 100),
                        job_write job_id (Status ''completed''),
                        job_write job_id (Output_url url)] st2
               | Inl e \<Rightarrow>
                   seq [job_write job_id (Status ''failed''),
                        job_write job_id (Error_message e)] st2)"

text \<open>Phase 1 of \<^verbatim>\<open>process_render_all_and_combine\<close>: the loop over the scenes, from
  index \<open>i\<close>. It returns the message of the exception it raised, if any, and the
  state it left.\<close>

fun render_loop ::
  "env \<Rightarrow> string \<Rightarrow> nat \<Rightarrow> nat \<Rightarrow> string list \<Rightarrow> state \<Rightarrow> string option \<times> state" where
  "render_loop env job_id total_scenes i [] st = (None, st)"
| "render_loop env job_id total_scenes i (ref # rest) st =
     (let scene_id = s_id (scene_of st ref);
          st1 = seq [job_write job_id
                       (Status (''Rendering scene '' @ str_nat (i + 1) @ ''/'' @ str_nat total_scenes)),
                     job_write job_id (Progress (scene_progress i total_scenes))] st
      in if s_status (scene_of st1 ref) \<noteq> completed \<or> \<not> truthy (s_video_url (scene_of st1 ref))
         then
           let st2 = scene_write ref (\<lambda>s. s\<lparr>s_status := rendering\<rparr>) st1;
               outcome = render_scene env (s_code (scene_of st2 ref)) scene_id;
               st3 = log_effect (Render_scene scene_id outcome) st2
           in (case outcome of
                 Inr result \<Rightarrow>
                   render_loop env job_id total_scenes (i + 1) rest
                     (scene_write ref (rendered result) st3)
               | Inl e \<Rightarrow>
                   (Some (''Failed to render scene '' @ str_nat (i + 1) @ '': '' @ e),
                    scene_write ref (render_failed e) st3))
         else render_loop env job_id total_scenes (i + 1) rest st1)"

definition process_render_all_and_combine :: "env \<Rightarrow> string \<Rightarrow> string \<Rightarrow> state \<Rightarrow> state" where
  "process_render_all_and_combine env job_id project_id st =
     (case projects_db st project_id of
        None \<Rightarrow> st
      | Some project \<Rightarrow>
          if render_jobs st job_id = None then st
          else
            let scenes = scene_refs st project;
                total_scenes = length scenes
            in case render_loop env job_id total_scenes 0 scenes st of
                 (Some e, st1) \<Rightarrow>
                   seq [job_write job_id (Status ''failed''),
                        job_write job_id (Error_message e)] st1
               | (None, st1) \<Rightarrow>
                   let st2 = seq [job_write job_id (Status ''Combining scenes''),
                                  job_write job_id (Progress 85)] st1;
                       urls = map (\<lambda>ref. s_video_url (scene_of st2 ref)) scenes;
                       outcome = compile_project env urls project_id (p_audio_url project);
                       st3 = log_effect (Compile_project urls outcome) st2
                   in case snd outcome of
                        Inr url \<Rightarrow>
                          seq [job_write job_id (Progress 100),
                               job_write job_id (Status ''completed''),
                               job_write job_id (Output_url url)] st3
                      | Inl e \<Rightarrow>
                          seq [job_write job_id (Status ''failed''),
                               job_write job_id (Error_message e)] st3)"

subsection \<open>Submission\<close>

text \<open>The request handlers. The \<^verbatim>\<open>uuid4\<close> drawn for the job is a parameter. An
  \<^verbatim>\<open>HTTPException\<close> leaves the state as it was; otherwise the job is stored, the task
  is queued to run after the response, and the response carries a copy of the job.\<close>

datatype http_exception = HTTPException int string

record RenderResponse =
  success :: bool
  data :: "job option"
  message :: "string option"

definition new_job :: "string \<Rightarrow> string option \<Rightarrow> string option \<Rightarrow> job" where
  "new_job job_id scene_id project_id =
     \<lparr> j_id = job_id, j_scene_id = scene_id, j_project_id = project_id,
       j_status = ''pending'', j_progress = 0, j_output_url = None, j_error_message = None \<rparr>"

definition submit :: "job \<Rightarrow> task \<Rightarrow> string \<Rightarrow> state \<Rightarrow> (http_exception + RenderResponse) \<times> state" where
  "submit job background_task text st =
     (Inr \<lparr> success = True, data = Some job, message = Some text \<rparr>,
      st\<lparr>render_jobs := (render_jobs st)(j_id job \<mapsto> job),
         background_tasks := background_tasks st @ [background_task]\<rparr>)"


text \<open>The loop of \<^verbatim>\<open>export_project\<close> that checks that all scenes are rendered: it
  raises at the first scene of the store that is not completed.\<close>

fun check_rendered :: "state \<Rightarrow> string list \<Rightarrow> http_exception option" where
  "check_rendered st [] = None"
| "check_rendered st (sid # sids) =
     (case scenes_db st sid of
        None \<Rightarrow> check_rendered st sids
      | Some scene \<Rightarrow>
          if s_status scene \<noteq> completed
          then Some (HTTPException 400 (''Scene '' @ sid @ '' is not rendered yet''))
          else check_rendered st sids)"

definition export_project ::
  "string \<Rightarrow> string \<Rightarrow> state \<Rightarrow> (http_exception + RenderResponse) \<times> state" where
  "export_project project_id job_id st =
     (case projects_db st project_id of
        None \<Rightarrow> (Inl (HTTPException 404 ''Project not found''), st)
      | Some project \<Rightarrow>
          let scene_ids = p_scenes project
          in if scene_ids = [] then (Inl (HTTPException 400 ''Project has no scenes''), st)
             else case check_rendered st scene_ids of
                    Some e \<Rightarrow> (Inl e, st)
                  | None \<Rightarrow>
                      submit (new_job job_id None (Some project_id))
                        (Process_export job_id project_id) ''Export job started'' st)"



text \<open>Running a queued task.\<close>

fun run_task :: "env \<Rightarrow> task \<Rightarrow> state \<Rightarrow> state" where
  "run_task env (Process_render job_id scene_id) st = process_render env job_id scene_id st"
| "run_task env (Process_export job_id project_id) st = process_export env job_id project_id st"
| "run_task env (Process_render_all_and_combine job_id project_id) st =
     process_render_all_and_combine env job_id project_id st"

text \<open>What a run appended to the log, and the values it assigned to the fields of a
  job.\<close>

definition trace :: "state \<Rightarrow> state \<Rightarrow> effect list" where
  "trace st st' = drop (length (effects st)) (effects st')"

fun job_writes :: "string \<Rightarrow> effect list \<Rightarrow> job_field list" where
  "job_writes job_id [] = []"
| "job_writes job_id (Job_write k w # es) =
     (if k = job_id then w # job_writes job_id es else job_writes job_id es)"
| "job_writes job_id (e # es) = job_writes job_id es"

fun progress_values :: "job_field list \<Rightarrow> int list" where
  "progress_values [] = []"
| "progress_values (Progress v # rest) = v # progress_values rest"
| "progress_values (w # rest) = progress_values rest"


section \<open>Auxiliary definitions and example inputs\<close>

text \<open>What \<^verbatim>\<open>ast.parse\<close> raises on \<^verbatim>\<open>eval(\<close> (Python 3.10 and later).\<close>

definition example_syntax_error :: syntax_error where
  "example_syntax_error =
     \<lparr> lineno = Some 1,
       msg = [CHR 0x27] @ ''('' @ [CHR 0x27] @ '' was never closed'',
       str_of_error = [CHR 0x27] @ ''('' @ [CHR 0x27] @ '' was never closed (<unknown>, line 1)'' \<rparr>"

definition failing_parse :: parser where
  "failing_parse code = SyntaxError example_syntax_error"

definition empty_module_parse :: parser where
  "empty_module_parse code = Parsed (Module [])"

text \<open>A parser that raises \<^verbatim>\<open>ValueError\<close>, as \<^verbatim>\<open>ast.parse\<close> does before Python 3.12
  on a source with a null byte.\<close>

definition raising_parse :: parser where
  "raising_parse code = Other_exception ''source code string cannot contain null bytes''"

definition code_with_null_byte :: string where
  "code_with_null_byte = ''x = 1'' @ [CHR 0x00]"

definition match_all :: searcher where
  "match_all pattern code = True"

definition match_os_and_eval :: searcher where
  "match_os_and_eval pattern code \<longleftrightarrow> pattern = wb @ ''os'' @ dot \<or> pattern = wb @ ''eval'' @ ws @ ''*'' @ lpar"

definition example_env :: env where
  "example_env =
     \<lparr> output_dir = ''./outputs'',
       upload_dir = ''./uploads'',
       abspath = (\<lambda>p. ''/app'' @ drop 1 p),
       path_exists = (\<lambda>p. p = ''/app/outputs/s1.mp4'' \<or> p = ''/app/uploads/song.mp3''),
       manim = (\<lambda>script scene_id.
          if scene_id = ''s2''
          then \<lparr> returncode = 1, stderr = ''boom'', video_file = None \<rparr>
          else \<lparr> returncode = 0, stderr = [], video_file = Some ''media/videos/scene.mp4'' \<rparr>),
       ffprobe = (\<lambda>p. Some 3),
       ffmpeg_concat = (\<lambda>file_list. (0, [])),
       ffmpeg_mux = (\<lambda>audio_path output_path. (1, ''mux failed'')) \<rparr>"

text \<open>The video paths of the scenes that \<^verbatim>\<open>compile_project\<close> keeps: those whose
  \<^verbatim>\<open>video_url\<close> is set and not empty and whose file exists.\<close>

definition artifacts :: "env \<Rightarrow> string option list \<Rightarrow> string list" where
  "artifacts env scenes =
     [video_path_of env url. Some url \<leftarrow> scenes, url \<noteq> [] \<and> path_exists env (video_path_of env url)]"

definition example_scene :: "string \<Rightarrow> int \<Rightarrow> scene" where
  "example_scene sid order_index =
     \<lparr> s_id = sid, s_project_id = ''p1'', s_prompt = ''a circle'',
       s_code = Some ''from manim import *'', s_video_url = None, s_thumbnail_url = None,
       s_duration_seconds = 0, s_order_index = order_index, s_status = pending,
       s_error_message = None \<rparr>"

definition example_project :: project where
  "example_project =
     \<lparr> p_id = ''p1'', p_name = ''demo'', p_description = None, p_scene_count = 3,
       p_scenes = [''s1'', ''s2'', ''s3''], p_audio_url = None \<rparr>"

definition example_state :: state where
  "example_state =
     \<lparr> projects_db = [''p1'' \<mapsto> example_project],
       scenes_db = [''s1'' \<mapsto> example_scene ''s1'' 0, ''s2'' \<mapsto> example_scene ''s2'' 1,
                    ''s3'' \<mapsto> example_scene ''s3'' 2],
       render_jobs = [''j1'' \<mapsto> new_job ''j1'' None (Some ''p1'')],
       background_tasks = [],
       effects = [] \<rparr>"

text \<open>The precondition of an export: the project has at least one scene reference and
  every scene it refers to has status completed. A reference whose key is not in the
  store refers to no scene.\<close>

definition export_precondition :: "state \<Rightarrow> project \<Rightarrow> bool" where
  "export_precondition st project \<longleftrightarrow>
     p_scenes project \<noteq> []
     \<and> list_all (\<lambda>sid. case scenes_db st sid of None \<Rightarrow> True | Some s \<Rightarrow> s_status s = completed)
          (p_scenes project)"

text \<open>The first scene of a list that is in the store and not completed.\<close>

definition first_unrendered :: "state \<Rightarrow> string list \<Rightarrow> string option" where
  "first_unrendered st sids =
     find (\<lambda>sid. case scenes_db st sid of None \<Rightarrow> False | Some s \<Rightarrow> s_status s \<noteq> completed) sids"

text \<open>The two assignments to the job at the start of iteration \<open>i\<close> of the render
  loop.\<close>

definition scene_writes :: "nat \<Rightarrow> nat \<Rightarrow> job_field list" where
  "scene_writes total_scenes i =
     [Status (''Rendering scene '' @ str_nat (i + 1) @ ''/'' @ str_nat total_scenes),
      Progress (scene_progress i total_scenes)]"

text \<open>The assignments to the job made by \<open>n\<close> iterations from index \<open>i\<close>.\<close>

fun loop_writes :: "nat \<Rightarrow> nat \<Rightarrow> nat \<Rightarrow> job_field list" where
  "loop_writes total_scenes i 0 = []"
| "loop_writes total_scenes i (Suc n) =
     scene_writes total_scenes i @ loop_writes total_scenes (Suc i) n"

fun is_compile :: "effect \<Rightarrow> bool" where
  "is_compile (Compile_project urls outcome) = True"
| "is_compile e = False"

fun is_failed_render :: "effect \<Rightarrow> bool" where
  "is_failed_render (Render_scene sid (Inl e)) = True"
| "is_failed_render e = False"

definition example_failed_run :: state where
  "example_failed_run = process_render_all_and_combine example_env ''j1'' ''p1'' example_state"





fun task_job :: "task \<Rightarrow> string" where
  "task_job (Process_render job_id scene_id) = job_id"
| "task_job (Process_export job_id project_id) = job_id"
| "task_job (Process_render_all_and_combine job_id project_id) = job_id"





text \<open>
  When \<open>80 * i\<close> is a multiple of \<open>total_scenes\<close> the quotient \<open>i / total_scenes\<close> is
  \<open>k / 80\<close> for some \<open>k < 80\<close>, and the two roundings must give back \<open>k\<close> exactly.
  For each \<open>k\<close> the table gives the mantissa \<open>m\<close> and the scale \<open>s\<close> of the double
  nearest to \<open>k / 80\<close>, which is \<open>m / 2^s\<close>, and the binade \<open>e\<close> of \<open>80 * m / 2^s\<close>;
  \<open>certified\<close> checks them in integer arithmetic.
\<close>

definition certified :: "int \<Rightarrow> int \<Rightarrow> nat \<Rightarrow> nat \<Rightarrow> bool" where
  "certified k m s e \<longleftrightarrow>
     80 * 2 ^ 52 \<le> k * 2 ^ s \<and> k * 2 ^ s < 80 * 2 ^ 53
     \<and> \<bar>2 * k * 2 ^ s - 160 * m\<bar> < 80
     \<and> 2 ^ e * 2 ^ s \<le> 80 * m \<and> 80 * m < 2 * 2 ^ e * 2 ^ s
     \<and> e < 52
     \<and> 2 * 2 ^ (52 - e) * \<bar>80 * m - k * 2 ^ s\<bar> \<le> 2 ^ s"

definition progress_certificates :: "(int \<times> int \<times> nat \<times> nat) list" where
  "progress_certificates =
     [(1, 7205759403792794, 59, 0), (2, 7205759403792794, 58, 1), (3, 5404319552844595, 57, 1),
      (4, 7205759403792794, 57, 2), (5, 4503599627370496, 56, 2), (6, 5404319552844595, 56, 2),
      (7, 6305039478318694, 56, 2), (8, 7205759403792794, 56, 3), (9, 8106479329266893, 56, 3),
      (10, 4503599627370496, 55, 3), (11, 4953959590107546, 55, 3), (12, 5404319552844595, 55, 3),
      (13, 5854679515581645, 55, 3), (14, 6305039478318694, 55, 3), (15, 6755399441055744, 55, 3),
      (16, 7205759403792794, 55, 4), (17, 7656119366529843, 55, 4), (18, 8106479329266893, 55, 4),
      (19, 8556839292003942, 55, 4), (20, 4503599627370496, 54, 4), (21, 4728779608739021, 54, 4),
      (22, 4953959590107546, 54, 4), (23, 5179139571476070, 54, 4), (24, 5404319552844595, 54, 4),
      (25, 5629499534213120, 54, 4), (26, 5854679515581645, 54, 4), (27, 6079859496950170, 54, 4),
      (28, 6305039478318694, 54, 4), (29, 6530219459687219, 54, 4), (30, 6755399441055744, 54, 4),
      (31, 6980579422424269, 54, 4), (32, 7205759403792794, 54, 5), (33, 7430939385161318, 54, 5),
      (34, 7656119366529843, 54, 5), (35, 7881299347898368, 54, 5), (36, 8106479329266893, 54, 5),
      (37, 8331659310635418, 54, 5), (38, 8556839292003942, 54, 5), (39, 8782019273372467, 54, 5),
      (40, 4503599627370496, 53, 5), (41, 4616189618054758, 53, 5), (42, 4728779608739021, 53, 5),
      (43, 4841369599423283, 53, 5), (44, 4953959590107546, 53, 5), (45, 5066549580791808, 53, 5),
      (46, 5179139571476070, 53, 5), (47, 5291729562160333, 53, 5), (48, 5404319552844595, 53, 5),
      (49, 5516909543528858, 53, 5), (50, 5629499534213120, 53, 5), (51, 5742089524897382, 53, 5),
      (52, 5854679515581645, 53, 5), (53, 5967269506265907, 53, 5), (54, 6079859496950170, 53, 5),
      (55, 6192449487634432, 53, 5), (56, 6305039478318694, 53, 5), (57, 6417629469002957, 53, 5),
      (58, 6530219459687219, 53, 5), (59, 6642809450371482, 53, 5), (60, 6755399441055744, 53, 5),
      (61, 6867989431740006, 53, 5), (62, 6980579422424269, 53, 5), (63, 7093169413108531, 53, 5),
      (64, 7205759403792794, 53, 6), (65, 7318349394477056, 53, 6), (66, 7430939385161318, 53, 6),
      (67, 7543529375845581, 53, 6), (68, 7656119366529843, 53, 6), (69, 7768709357214106, 53, 6),
      (70, 7881299347898368, 53, 6), (71, 7993889338582630, 53, 6), (72, 8106479329266893, 53, 6),
      (73, 8219069319951155, 53, 6), (74, 8331659310635418, 53, 6), (75, 8444249301319680, 53, 6),
      (76, 8556839292003942, 53, 6), (77, 8669429282688205, 53, 6), (78, 8782019273372467, 53, 6),
      (79, 8894609264056730, 53, 6)]"

text \<open>The assignments to the job at the start of iteration \<open>i\<close> as the specification
  words them: the label of the scene, and \<open>floor (i / total_scenes * 80)\<close> as the
  progress.\<close>

definition schedule :: "nat \<Rightarrow> nat \<Rightarrow> job_field list" where
  "schedule total_scenes i =
     [Status (''Rendering scene '' @ str_nat (i + 1) @ ''/'' @ str_nat total_scenes),
      Progress ((80 * int i) div int total_scenes)]"

text \<open>The example with a render engine that succeeds on every scene.\<close>

definition example_env_ok :: env where
  "example_env_ok =
     example_env\<lparr>manim := (\<lambda>script scene_id.
        \<lparr> returncode = 0, stderr = [], video_file = Some ''media/videos/scene.mp4'' \<rparr>)\<rparr>"

definition example_completed_run :: state where
  "example_completed_run =
     process_render_all_and_combine example_env_ok ''j1'' ''p1'' example_state"


section \<open>Properties of the validator\<close>

lemma pattern_loop_filter:
  "pattern_loop re_search code ps found = found @ filter (\<lambda>p. re_search p code) ps"
  by (induction ps arbitrary: found) simp_all

lemma check_dangerous_patterns_filter:
  "check_dangerous_patterns re_search code =
     (filter (\<lambda>p. re_search p code) DANGEROUS_PATTERNS = [],
      filter (\<lambda>p. re_search p code) DANGEROUS_PATTERNS)"
  by (simp add: check_dangerous_patterns_def pattern_loop_filter Let_def)

text \<open>
  The four checks of \<^verbatim>\<open>validate_manim_code\<close> run in the order emptiness, syntax,
  dangerous patterns, structure, and the first that fails decides. A blank or
  whitespace-only code gives \<^verbatim>\<open>Code is empty\<close> whatever the parser and the pattern
  search would say. A code on which the parser raises \<^verbatim>\<open>SyntaxError\<close> gives the syntax
  message with the line number and the message of the error, whatever the pattern
  search would find; any other exception of the parser leaves
  \<^verbatim>\<open>validate_manim_code\<close>. A code that parses and in which a pattern is found is
  rejected for that, whatever the structure check would say, and the structure check
  decides only once the three others passed.
\<close>

theorem validate_fail_fast:
  "(strip code = [] \<longrightarrow>
      validate_manim_code parse re_search code = Inr (False, ''Code is empty''))
   \<and> (strip code \<noteq> [] \<and> parse code = SyntaxError e \<longrightarrow>
      validate_manim_code parse re_search code =
        Inr (False, ''Syntax error at line ''
                  @ (case lineno e of None \<Rightarrow> ''None'' | Some n \<Rightarrow> str_int n) @ '': '' @ msg e))
   \<and> (strip code \<noteq> [] \<and> parse code = Other_exception x \<longrightarrow>
      validate_manim_code parse re_search code = Inl x)
   \<and> (strip code \<noteq> [] \<and> parse code = Parsed tree
        \<and> filter (\<lambda>p. re_search p code) DANGEROUS_PATTERNS \<noteq> [] \<longrightarrow>
      validate_manim_code parse re_search code =
        Inr (False, ''Code contains dangerous patterns: ''
                  @ join '', '' (filter (\<lambda>p. re_search p code) DANGEROUS_PATTERNS)))
   \<and> (strip code \<noteq> [] \<and> parse code = Parsed tree
        \<and> filter (\<lambda>p. re_search p code) DANGEROUS_PATTERNS = [] \<longrightarrow>
      validate_manim_code parse re_search code =
        (if fst (check_structure parse code) then Inr (True, [])
         else Inr (False, snd (check_structure parse code))))"
proof (intro conjI impI)
  assume "strip code = []"
  then show "validate_manim_code parse re_search code = Inr (False, ''Code is empty'')"
    by (simp add: validate_manim_code_def)
next
  assume a: "strip code \<noteq> [] \<and> parse code = SyntaxError e"
  then have "code \<noteq> []"
    by (auto simp: strip_def)
  with a show "validate_manim_code parse re_search code =
        Inr (False, ''Syntax error at line ''
                  @ (case lineno e of None \<Rightarrow> ''None'' | Some n \<Rightarrow> str_int n) @ '': '' @ msg e)"
    by (simp add: validate_manim_code_def check_syntax_def syntax_message_def)
next
  assume a: "strip code \<noteq> [] \<and> parse code = Other_exception x"
  then have "code \<noteq> []"
    by (auto simp: strip_def)
  with a show "validate_manim_code parse re_search code = Inl x"
    by (simp add: validate_manim_code_def check_syntax_def)
next
  assume a: "strip code \<noteq> [] \<and> parse code = Parsed tree
        \<and> filter (\<lambda>p. re_search p code) DANGEROUS_PATTERNS \<noteq> []"
  then have "code \<noteq> []"
    by (auto simp: strip_def)
  with a show "validate_manim_code parse re_search code =
        Inr (False, ''Code contains dangerous patterns: ''
                  @ join '', '' (filter (\<lambda>p. re_search p code) DANGEROUS_PATTERNS))"
    by (simp add: validate_manim_code_def check_syntax_def check_dangerous_patterns_filter)
next
  assume a: "strip code \<noteq> [] \<and> parse code = Parsed tree
        \<and> filter (\<lambda>p. re_search p code) DANGEROUS_PATTERNS = []"
  then have "code \<noteq> []"
    by (auto simp: strip_def)
  with a show "validate_manim_code parse re_search code =
        (if fst (check_structure parse code) then Inr (True, [])
         else Inr (False, snd (check_structure parse code)))"
    by (simp add: validate_manim_code_def check_syntax_def check_dangerous_patterns_filter
        split: prod.splits)
qed

theorem validate_fail_fast_witness:
  "validate_manim_code failing_parse match_all ''  '' = Inr (False, ''Code is empty'')
   \<and> validate_manim_code failing_parse match_all ''eval('' =
       Inr (False, ''Syntax error at line 1: '' @ [CHR 0x27] @ ''('' @ [CHR 0x27] @ '' was never closed'')
   \<and> validate_manim_code raising_parse match_all code_with_null_byte =
       Inl ''source code string cannot contain null bytes''
   \<and> validate_manim_code empty_module_parse match_os_and_eval ''os.system(eval(x))'' =
       Inr (False, ''Code contains dangerous patterns: ''
              @ wb @ ''os'' @ dot @ '', '' @ wb @ ''eval'' @ ws @ ''*'' @ lpar)
   \<and> validate_manim_code empty_module_parse (\<lambda>p c. False) ''x = 1'' =
       Inr (False, ''Code must import from manim (e.g., '' @ [CHR 0x27]
              @ ''from manim import *'' @ [CHR 0x27] @ '')'')"
proof -
  have blank: "strip ''  '' = []"
    and not_blank: "strip ''eval('' \<noteq> []" "strip code_with_null_byte \<noteq> []"
      "strip ''os.system(eval(x))'' \<noteq> []" "strip ''x = 1'' \<noteq> []"
    by (simp_all add: strip_def is_space_def code_with_null_byte_def)
  have found: "filter (\<lambda>p. match_os_and_eval p ''os.system(eval(x))'') DANGEROUS_PATTERNS
      = [wb @ ''os'' @ dot, wb @ ''eval'' @ ws @ ''*'' @ lpar]"
    by (simp add: DANGEROUS_PATTERNS_def match_os_and_eval_def wb_def ws_def dot_def lpar_def
        bs_def)
  show ?thesis
    using validate_fail_fast [where code = "''  ''" and parse = failing_parse
        and re_search = match_all]
      validate_fail_fast [where code = "''eval(''" and parse = failing_parse
        and e = example_syntax_error and re_search = match_all]
      validate_fail_fast [where code = code_with_null_byte and parse = raising_parse
        and x = "''source code string cannot contain null bytes''" and re_search = match_all]
      validate_fail_fast [where code = "''os.system(eval(x))''" and parse = empty_module_parse
        and tree = "Module []" and re_search = match_os_and_eval]
      validate_fail_fast [where code = "''x = 1''" and parse = empty_module_parse
        and tree = "Module []" and re_search = "\<lambda>p c. False"]
    by (simp add: blank not_blank found failing_parse_def example_syntax_error_def
        raising_parse_def empty_module_parse_def check_structure_def walk_def
        str_int_def str_nat.simps digit_char_def)
qed

text \<open>
  C3. The claim fails where the parser raises an exception other than
  \<^verbatim>\<open>SyntaxError\<close>: on a source with a null byte, where \<^verbatim>\<open>ast.parse\<close> raises
  \<^verbatim>\<open>ValueError\<close> before Python 3.12, \<^verbatim>\<open>validate_manim_code\<close> returns no rejection but
  lets the exception through, although the code is not blank and does not parse.
  \<^verbatim>\<open>check_structure\<close>, which parses the same source, turns the same exception into a
  rejection.
\<close>

theorem validate_raises_on_null_byte:
  "validate_manim_code raising_parse match_all code_with_null_byte =
     Inl ''source code string cannot contain null bytes''
   \<and> check_structure raising_parse code_with_null_byte =
     (False, ''Error analyzing code structure: source code string cannot contain null bytes'')"
  by (simp add: validate_manim_code_def check_syntax_def check_structure_def raising_parse_def
      code_with_null_byte_def strip_def is_space_def)

text \<open>
  C4. A code that is not blank, that parses, and in which at least one pattern of the
  denylist is found is rejected with a message listing every pattern of the denylist
  that is found in it, in the order of the denylist, whatever its structure.
\<close>

theorem validate_lists_every_dangerous_pattern:
  assumes "strip code \<noteq> []"
    and "parse code = Parsed tree"
    and "\<exists>p \<in> set DANGEROUS_PATTERNS. re_search p code"
  shows "validate_manim_code parse re_search code =
           Inr (False, ''Code contains dangerous patterns: ''
                     @ join '', '' (filter (\<lambda>p. re_search p code) DANGEROUS_PATTERNS))"
proof -
  from assms(1) have "code \<noteq> []"
    by (auto simp: strip_def)
  moreover from assms(3) have "filter (\<lambda>p. re_search p code) DANGEROUS_PATTERNS \<noteq> []"
    by (simp add: filter_empty_conv)
  ultimately show ?thesis
    using assms(1,2)
    by (simp add: validate_manim_code_def check_syntax_def check_dangerous_patterns_filter)
qed

theorem validate_lists_every_dangerous_pattern_witness:
  "validate_manim_code empty_module_parse match_os_and_eval ''os.system(eval(x))'' =
     Inr (False, ''Code contains dangerous patterns: '' @ wb @ ''os'' @ dot @ '', '' @ wb @ ''eval'' @ ws @ ''*'' @ lpar)"
proof -
  have "strip ''os.system(eval(x))'' \<noteq> []"
    by (simp add: strip_def is_space_def)
  moreover have "empty_module_parse ''os.system(eval(x))'' = Parsed (Module [])"
    by (simp add: empty_module_parse_def)
  moreover have "\<exists>p \<in> set DANGEROUS_PATTERNS. match_os_and_eval p ''os.system(eval(x))''"
    by (simp add: DANGEROUS_PATTERNS_def match_os_and_eval_def)
  ultimately have "validate_manim_code empty_module_parse match_os_and_eval ''os.system(eval(x))'' =
           Inr (False, ''Code contains dangerous patterns: ''
                     @ join '', '' (filter (\<lambda>p. match_os_and_eval p ''os.system(eval(x))'') DANGEROUS_PATTERNS))"
    by (rule validate_lists_every_dangerous_pattern)
  then show ?thesis
    by (simp add: DANGEROUS_PATTERNS_def match_os_and_eval_def wb_def ws_def dot_def lpar_def bs_def)
qed


section \<open>Properties of the combiner\<close>

lemma manifest_loop_artifacts:
  "manifest_loop env scenes (file_list, video_count) =
     (file_list @ map manifest_line (artifacts env scenes),
      video_count + length (artifacts env scenes))"
proof (induction scenes arbitrary: file_list video_count)
  case Nil
  then show ?case by (simp add: artifacts_def)
next
  case (Cons url scenes)
  show ?case
  proof (cases url)
    case None
    then show ?thesis using Cons.IH by (simp add: artifacts_def)
  next
    case (Some u)
    then show ?thesis using Cons.IH by (simp add: artifacts_def)
  qed
qed

lemma compile_project_cases:
  "compile_project env scenes project_id audio_url =
     (if scenes = [] then ([], Inl ''No scenes to compile'')
      else if artifacts env scenes = [] then ([], Inl ''No rendered video files found to compile'')
      else if fst (ffmpeg_concat env (map manifest_line (artifacts env scenes))) \<noteq> 0
      then ([Concat (map manifest_line (artifacts env scenes))
               (ffmpeg_concat env (map manifest_line (artifacts env scenes)))],
            Inl (''Video concatenation failed: ''
                  @ snd (ffmpeg_concat env (map manifest_line (artifacts env scenes)))))
      else (Concat (map manifest_line (artifacts env scenes))
               (ffmpeg_concat env (map manifest_line (artifacts env scenes)))
             # add_audio env audio_url
                 (path_join (abspath env (output_dir env)) (project_id @ ''_final.mp4'')),
            Inr (''/outputs/'' @ project_id @ ''_final.mp4'')))"
  by (simp add: compile_project_def manifest_loop_artifacts Let_def)

text \<open>
  C2. For a non-empty list of scenes, the manifest written by \<^verbatim>\<open>compile_project\<close>
  has one line for each scene whose \<^verbatim>\<open>video_url\<close> is set and whose file exists, in
  the order of the list, and no line for any other scene; such a scene raises no
  error. The result is \<^verbatim>\<open>No rendered video files found to compile\<close> exactly when no
  scene is kept. When some scene is kept, the concat run is given this manifest, and
  when it returns 0 the result is the url of the final video.
\<close>

theorem compile_project_manifest:
  assumes "scenes \<noteq> []"
  shows "fst (manifest_loop env scenes ([], 0)) = map manifest_line (artifacts env scenes)
    \<and> (snd (compile_project env scenes project_id audio_url)
           = Inl ''No rendered video files found to compile''
         \<longleftrightarrow> artifacts env scenes = [])
    \<and> (artifacts env scenes \<noteq> [] \<longrightarrow>
         hd (fst (compile_project env scenes project_id audio_url))
           = Concat (map manifest_line (artifacts env scenes))
               (ffmpeg_concat env (map manifest_line (artifacts env scenes))))
    \<and> (artifacts env scenes \<noteq> []
           \<and> fst (ffmpeg_concat env (map manifest_line (artifacts env scenes))) = 0 \<longrightarrow>
         snd (compile_project env scenes project_id audio_url)
           = Inr (''/outputs/'' @ project_id @ ''_final.mp4''))"
  using assms by (simp add: manifest_loop_artifacts compile_project_cases)

theorem compile_project_manifest_witness:
  "fst (manifest_loop example_env [Some ''/outputs/s1.mp4'', Some ''/outputs/s2.mp4'', None] ([], 0))
     = [manifest_line ''/app/outputs/s1.mp4'']
   \<and> snd (compile_project example_env [Some ''/outputs/s1.mp4'', Some ''/outputs/s2.mp4'', None]
            ''p1'' None)
     = Inr ''/outputs/p1_final.mp4''
   \<and> snd (compile_project example_env [Some ''/outputs/s2.mp4'', None] ''p1'' None)
     = Inl ''No rendered video files found to compile''"
  using compile_project_manifest
      [where scenes = "[Some ''/outputs/s1.mp4'', Some ''/outputs/s2.mp4'', None]"
        and env = example_env and project_id = "''p1''" and audio_url = None]
    compile_project_manifest
      [where scenes = "[Some ''/outputs/s2.mp4'', None]"
        and env = example_env and project_id = "''p1''" and audio_url = None]
  by (simp add: artifacts_def example_env_def video_path_of_def path_join_def basename_def)

text \<open>
  C10. When at least one scene is kept, the concat run returns 0, and an audio url is
  given whose file exists, \<^verbatim>\<open>compile_project\<close> runs the mux and returns the url of
  the final video, whatever the mux run returns: its return code and its error output
  are not looked at.
\<close>

theorem compile_project_ignores_mux_result:
  assumes "artifacts env scenes \<noteq> []"
    and "fst (ffmpeg_concat env (map manifest_line (artifacts env scenes))) = 0"
    and "audio_url = Some url" and "url \<noteq> []"
    and "path_exists env (path_join (abspath env (upload_dir env)) (basename url))"
  shows "compile_project (env\<lparr>ffmpeg_mux := mux\<rparr>) scenes project_id audio_url =
           ([Concat (map manifest_line (artifacts env scenes))
               (ffmpeg_concat env (map manifest_line (artifacts env scenes))),
             Mux (path_join (abspath env (upload_dir env)) (basename url))
               (mux (path_join (abspath env (upload_dir env)) (basename url))
                    (path_join (abspath env (output_dir env)) (project_id @ ''_final.mp4'')))],
            Inr (''/outputs/'' @ project_id @ ''_final.mp4''))"
proof -
  have "video_path_of (env\<lparr>ffmpeg_mux := mux\<rparr>) = video_path_of env"
    by (rule ext) (simp add: video_path_of_def)
  then have same: "artifacts (env\<lparr>ffmpeg_mux := mux\<rparr>) scenes = artifacts env scenes"
    by (simp add: artifacts_def cong: option.case_cong if_cong)
  from assms(1) have "scenes \<noteq> []"
    by (auto simp: artifacts_def)
  with assms show ?thesis
    by (simp add: compile_project_cases same add_audio_def Let_def)
qed

theorem compile_project_ignores_mux_result_witness:
  "compile_project (example_env\<lparr>ffmpeg_mux := (\<lambda>audio_path output_path. (1, ''mux failed''))\<rparr>)
     [Some ''/outputs/s1.mp4''] ''p1'' (Some ''/uploads/song.mp3'')
   = ([Concat [manifest_line ''/app/outputs/s1.mp4''] (0, []),
       Mux ''/app/uploads/song.mp3'' (1, ''mux failed'')],
      Inr ''/outputs/p1_final.mp4'')"
proof -
  have a: "artifacts example_env [Some ''/outputs/s1.mp4''] = [''/app/outputs/s1.mp4'']"
    by (simp add: artifacts_def example_env_def video_path_of_def path_join_def basename_def)
  have b: "path_join (abspath example_env (upload_dir example_env)) (basename ''/uploads/song.mp3'')
             = ''/app/uploads/song.mp3''"
    by (simp add: example_env_def path_join_def basename_def)
  have c: "ffmpeg_concat example_env [manifest_line ''/app/outputs/s1.mp4''] = (0, [])"
    by (simp add: example_env_def)
  have d: "path_exists example_env ''/app/uploads/song.mp3''"
    by (simp add: example_env_def)
  show ?thesis
    using compile_project_ignores_mux_result
      [where env = example_env and scenes = "[Some ''/outputs/s1.mp4'']"
        and audio_url = "Some ''/uploads/song.mp3''" and url = "''/uploads/song.mp3''"
        and project_id = "''p1''" and mux = "\<lambda>audio_path output_path. (1, ''mux failed'')"]
    by (simp add: a b c d)
qed


section \<open>Properties of the render jobs\<close>

lemma seq_Nil [simp]: "seq [] st = st"
  by (simp add: seq_def)

lemma seq_Cons [simp]: "seq (step # steps) st = seq steps (step st)"
  by (simp add: seq_def)

lemma job_write_simps [simp]:
  "scenes_db (job_write job_id w st) = scenes_db st"
  "projects_db (job_write job_id w st) = projects_db st"
  "background_tasks (job_write job_id w st) = background_tasks st"
  "effects (job_write job_id w st) = effects st @ [Job_write job_id w]"
  "render_jobs (job_write job_id w st) k =
     (if k = job_id then map_option (assign w) (render_jobs st k) else render_jobs st k)"
  by (simp_all add: job_write_def)

lemma scene_write_simps [simp]:
  "render_jobs (scene_write ref f st) = render_jobs st"
  "projects_db (scene_write ref f st) = projects_db st"
  "background_tasks (scene_write ref f st) = background_tasks st"
  "effects (scene_write ref f st) = effects st"
  "scenes_db (scene_write ref f st) k =
     (if k = ref then Some (f (scene_of st ref)) else scenes_db st k)"
  by (simp_all add: scene_write_def)

lemma log_effect_simps [simp]:
  "render_jobs (log_effect e st) = render_jobs st"
  "projects_db (log_effect e st) = projects_db st"
  "scenes_db (log_effect e st) = scenes_db st"
  "background_tasks (log_effect e st) = background_tasks st"
  "effects (log_effect e st) = effects st @ [e]"
  by (simp_all add: log_effect_def)

lemma scene_of_simps [simp]:
  "scene_of (job_write job_id w st) = scene_of st"
  "scene_of (log_effect e st) = scene_of st"
  "scene_of (scene_write ref f st) k = (if k = ref then f (scene_of st ref) else scene_of st k)"
  by (auto simp: scene_of_def fun_eq_iff)

lemma trace_append: "effects st' = effects st @ X \<Longrightarrow> trace st st' = X"
  by (simp add: trace_def)

lemma trace_same [simp]: "trace st st = []"
  by (simp add: trace_def)

lemma job_writes_append [simp]:
  "job_writes job_id (xs @ ys) = job_writes job_id xs @ job_writes job_id ys"
  by (induction job_id xs rule: job_writes.induct) simp_all

lemma progress_values_append [simp]:
  "progress_values (xs @ ys) = progress_values xs @ progress_values ys"
  by (induction xs rule: progress_values.induct) simp_all

lemma process_render_effects:
  assumes "render_jobs st job_id \<noteq> None" and "scenes_db st scene_id \<noteq> None"
  shows "effects (process_render env job_id scene_id st) =
     effects st @
       [Job_write job_id (Status ''rendering''), Job_write job_id (Progress 10),
        Render_scene scene_id (render_scene env (s_code (scene_of st scene_id)) scene_id)]
       @ (case render_scene env (s_code (scene_of st scene_id)) scene_id of
            Inr result \<Rightarrow>
              [Job_write job_id (Progress 100), Job_write job_id (Status ''completed''),
               Job_write job_id (Output_url (video_url result))]
          | Inl e \<Rightarrow>
              [Job_write job_id (Status ''failed''), Job_write job_id (Error_message e)])"
  using assms by (simp add: process_render_def Let_def split: sum.splits)

text \<open>
  C7 (as amended). A single-scene-render job is created with progress 0; its task
  assigns 10 to the progress when it starts and 100 when the render has succeeded, and
  nothing else: the values assigned are 10 and 100 on success and 10 alone on failure.
\<close>

theorem process_render_progress:
  assumes "render_jobs st job_id \<noteq> None" and "scenes_db st scene_id \<noteq> None"
  shows "j_progress (new_job job_id (Some scene_id) project_id) = 0
    \<and> progress_values (job_writes job_id (trace st (process_render env job_id scene_id st))) =
         (case render_scene env (s_code (scene_of st scene_id)) scene_id of
            Inr result \<Rightarrow> [10, 100]
          | Inl e \<Rightarrow> [10])"
  using assms
  by (simp add: trace_append [OF process_render_effects] new_job_def split: sum.splits)

theorem process_render_progress_witness:
  "progress_values (job_writes ''j1'' (trace example_state
      (process_render example_env ''j1'' ''s2'' example_state))) = [10]"
proof -
  have "render_scene example_env (s_code (scene_of example_state ''s2'')) ''s2'' = Inl ''Manim render failed: boom''"
    by (simp add: example_state_def example_scene_def scene_of_def render_scene_def example_env_def)
  moreover have "render_jobs example_state ''j1'' \<noteq> None" "scenes_db example_state ''s2'' \<noteq> None"
    by (simp_all add: example_state_def)
  ultimately show ?thesis
    using process_render_progress [where st = example_state and job_id = "''j1''"
        and scene_id = "''s2''" and env = example_env]
    by simp
qed

text \<open>
  C7 as stated fails: in the example the task assigns 10 to the progress before it
  calls the render service.
\<close>

theorem process_render_writes_progress_10:
  "\<not> set (progress_values (job_writes ''j1'' (trace example_state
        (process_render example_env ''j1'' ''s1'' example_state)))) \<subseteq> {0, 100}"
proof -
  have "render_jobs example_state ''j1'' \<noteq> None" "scenes_db example_state ''s1'' \<noteq> None"
    by (simp_all add: example_state_def)
  then have "effects (process_render example_env ''j1'' ''s1'' example_state) =
     effects example_state @
       [Job_write ''j1'' (Status ''rendering''), Job_write ''j1'' (Progress 10),
        Render_scene ''s1'' (render_scene example_env (s_code (scene_of example_state ''s1'')) ''s1'')]
       @ (case render_scene example_env (s_code (scene_of example_state ''s1'')) ''s1'' of
            Inr result \<Rightarrow>
              [Job_write ''j1'' (Progress 100), Job_write ''j1'' (Status ''completed''),
               Job_write ''j1'' (Output_url (video_url result))]
          | Inl e \<Rightarrow>
              [Job_write ''j1'' (Status ''failed''), Job_write ''j1'' (Error_message e)])"
    by (rule process_render_effects)
  then show ?thesis
    by (simp add: trace_append split: sum.splits)
qed

lemma check_rendered_find:
  "check_rendered st sids =
     map_option (\<lambda>sid. HTTPException 400 (''Scene '' @ sid @ '' is not rendered yet''))
       (first_unrendered st sids)"
  by (induction sids) (simp_all add: first_unrendered_def split: option.splits)

lemma first_unrendered_None:
  "first_unrendered st sids = None \<longleftrightarrow>
     list_all (\<lambda>sid. case scenes_db st sid of None \<Rightarrow> True | Some s \<Rightarrow> s_status s = completed) sids"
  by (induction sids) (auto simp: first_unrendered_def split: option.splits)

lemma first_unrendered_Some:
  "first_unrendered st sids = Some sid \<Longrightarrow>
     sid \<in> set sids \<and> (\<exists>s. scenes_db st sid = Some s \<and> s_status s \<noteq> completed)"
  by (induction sids) (auto simp: first_unrendered_def split: option.splits if_splits)

text \<open>
  C9. For a project of the store, \<^verbatim>\<open>export_project\<close> raises an \<^verbatim>\<open>HTTPException\<close> with
  status 400 and leaves the state as it was, so that no job is stored, unless the
  project has at least one scene reference and every scene it refers to is completed.
  When the project has scenes, the detail of the exception names a scene of the
  project that is not completed. When the precondition holds, the job is stored with
  status \<^verbatim>\<open>pending\<close>, its task is queued, and the response carries the job.
\<close>

theorem export_project_precondition:
  assumes "projects_db st project_id = Some project"
  shows "(export_precondition st project \<longrightarrow>
            export_project project_id job_id st =
              (Inr \<lparr> success = True, data = Some (new_job job_id None (Some project_id)),
                     message = Some ''Export job started'' \<rparr>,
               st\<lparr>render_jobs := (render_jobs st)(job_id \<mapsto> new_job job_id None (Some project_id)),
                  background_tasks := background_tasks st @ [Process_export job_id project_id]\<rparr>)
            \<and> j_status (new_job job_id None (Some project_id)) = ''pending'')
    \<and> (\<not> export_precondition st project \<longrightarrow>
          (\<exists>detail. export_project project_id job_id st = (Inl (HTTPException 400 detail), st)
             \<and> (p_scenes project \<noteq> [] \<longrightarrow>
                   (\<exists>sid \<in> set (p_scenes project). \<exists>s.
                      scenes_db st sid = Some s \<and> s_status s \<noteq> completed
                      \<and> detail = ''Scene '' @ sid @ '' is not rendered yet''))))"
proof (intro conjI impI)
  assume pre: "export_precondition st project"
  then have "first_unrendered st (p_scenes project) = None"
    by (simp add: export_precondition_def first_unrendered_None)
  with pre assms show "export_project project_id job_id st =
              (Inr \<lparr> success = True, data = Some (new_job job_id None (Some project_id)),
                     message = Some ''Export job started'' \<rparr>,
               st\<lparr>render_jobs := (render_jobs st)(job_id \<mapsto> new_job job_id None (Some project_id)),
                  background_tasks := background_tasks st @ [Process_export job_id project_id]\<rparr>)"
    by (simp add: export_project_def check_rendered_find submit_def new_job_def
        export_precondition_def)
  show "j_status (new_job job_id None (Some project_id)) = ''pending''"
    by (simp add: new_job_def)
next
  assume npre: "\<not> export_precondition st project"
  show "\<exists>detail. export_project project_id job_id st = (Inl (HTTPException 400 detail), st)
             \<and> (p_scenes project \<noteq> [] \<longrightarrow>
                   (\<exists>sid \<in> set (p_scenes project). \<exists>s.
                      scenes_db st sid = Some s \<and> s_status s \<noteq> completed
                      \<and> detail = ''Scene '' @ sid @ '' is not rendered yet''))"
  proof (cases "p_scenes project = []")
    case True
    with assms show ?thesis
      by (simp add: export_project_def)
  next
    case False
    with npre have "first_unrendered st (p_scenes project) \<noteq> None"
      by (simp add: export_precondition_def first_unrendered_None)
    then obtain sid where sid: "first_unrendered st (p_scenes project) = Some sid"
      by auto
    from first_unrendered_Some [OF sid] obtain s where
      "sid \<in> set (p_scenes project)" "scenes_db st sid = Some s" "s_status s \<noteq> completed"
      by auto
    moreover from assms False sid have "export_project project_id job_id st =
        (Inl (HTTPException 400 (''Scene '' @ sid @ '' is not rendered yet'')), st)"
      by (simp add: export_project_def check_rendered_find)
    ultimately show ?thesis
      by blast
  qed
qed

theorem export_project_precondition_witness:
  "\<not> export_precondition example_state example_project
   \<and> export_project ''p1'' ''j2'' example_state =
       (Inl (HTTPException 400 ''Scene s1 is not rendered yet''), example_state)"
proof -
  have p: "projects_db example_state ''p1'' = Some example_project"
    by (simp add: example_state_def)
  have n: "\<not> export_precondition example_state example_project"
    by (simp add: export_precondition_def example_state_def example_project_def example_scene_def)
  have "export_project ''p1'' ''j2'' example_state =
       (Inl (HTTPException 400 ''Scene s1 is not rendered yet''), example_state)"
    by (simp add: export_project_def example_state_def example_project_def example_scene_def)
  with n export_project_precondition [OF p, of "''j2''"] show ?thesis
    by simp
qed

section \<open>The render loop\<close>

lemma render_scene_video_url:
  "render_scene env code scene_id = Inr result \<Longrightarrow> video_url result \<noteq> []"
  by (auto simp: render_scene_def Let_def split: option.splits if_splits)

lemma render_loop_keeps_job:
  "render_loop env job_id tot i refs st = (exc, st') \<Longrightarrow>
     render_jobs st job_id \<noteq> None \<Longrightarrow> render_jobs st' job_id \<noteq> None"
proof (induction refs arbitrary: i st)
  case Nil
  then show ?case by simp
next
  case (Cons ref rest)
  from Cons.prems show ?case
    by (auto simp: Let_def split: if_splits sum.splits dest!: Cons.IH)
qed

lemma render_loop_projects:
  "render_loop env job_id tot i refs st = (exc, st') \<Longrightarrow> projects_db st' = projects_db st"
proof (induction refs arbitrary: i st)
  case Nil
  then show ?case by simp
next
  case (Cons ref rest)
  from Cons.prems show ?case
    by (auto simp: Let_def split: if_splits sum.splits dest!: Cons.IH)
qed

lemma render_loop_effects:
  "render_loop env job_id tot i refs st = (exc, st') \<Longrightarrow>
     \<exists>X n. effects st' = effects st @ X
       \<and> n \<le> length refs
       \<and> job_writes job_id X = loop_writes tot i n
       \<and> (\<forall>k. k \<noteq> job_id \<longrightarrow> job_writes k X = [])
       \<and> (exc = None \<longrightarrow> n = length refs)
       \<and> \<not> list_ex is_compile X
       \<and> (exc = None \<longrightarrow> \<not> list_ex is_failed_render X)"
proof (induction refs arbitrary: i st)
  case Nil
  then show ?case by simp
next
  case (Cons ref rest)
  let ?st1 = "seq [job_write job_id
                       (Status (''Rendering scene '' @ str_nat (i + 1) @ ''/'' @ str_nat tot)),
                     job_write job_id (Progress (scene_progress i tot))] st"
  let ?st2 = "scene_write ref (\<lambda>s. s\<lparr>s_status := rendering\<rparr>) ?st1"
  let ?outcome = "render_scene env (s_code (scene_of ?st2 ref)) (s_id (scene_of st ref))"
  let ?st3 = "log_effect (Render_scene (s_id (scene_of st ref)) ?outcome) ?st2"
  show ?case
  proof (cases "s_status (scene_of ?st1 ref) \<noteq> completed \<or> \<not> truthy (s_video_url (scene_of ?st1 ref))")
    case False
    with Cons.prems have "render_loop env job_id tot (Suc i) rest ?st1 = (exc, st')"
      by (simp add: Let_def)
    from Cons.IH [OF this] obtain X n where
      X: "effects st' = effects ?st1 @ X" "n \<le> length rest"
        "job_writes job_id X = loop_writes tot (Suc i) n"
        "\<forall>k. k \<noteq> job_id \<longrightarrow> job_writes k X = []"
        "exc = None \<longrightarrow> n = length rest" "\<not> list_ex is_compile X"
        "exc = None \<longrightarrow> \<not> list_ex is_failed_render X"
      by blast
    show ?thesis
      apply (rule exI [where x = "map (Job_write job_id) (scene_writes tot i) @ X"])
      apply (rule exI [where x = "Suc n"])
      using X by (simp add: scene_writes_def)
  next
    case True
    show ?thesis
    proof (cases ?outcome)
      case (Inl e)
      with True Cons.prems have
        "exc = Some (''Failed to render scene '' @ str_nat (i + 1) @ '': '' @ e)"
        "st' = scene_write ref (render_failed e) ?st3"
        by (simp_all add: Let_def)
      then show ?thesis
        apply -
        apply (rule exI [where x = "map (Job_write job_id) (scene_writes tot i)
                                     @ [Render_scene (s_id (scene_of st ref)) ?outcome]"])
        apply (rule exI [where x = "Suc 0"])
        by (simp add: scene_writes_def)
    next
      case (Inr result)
      with True Cons.prems have
        "render_loop env job_id tot (Suc i) rest (scene_write ref (rendered result) ?st3) = (exc, st')"
        by (simp add: Let_def)
      from Cons.IH [OF this] obtain X n where
        X: "effects st' = effects (scene_write ref (rendered result) ?st3) @ X" "n \<le> length rest"
          "job_writes job_id X = loop_writes tot (Suc i) n"
          "\<forall>k. k \<noteq> job_id \<longrightarrow> job_writes k X = []"
          "exc = None \<longrightarrow> n = length rest" "\<not> list_ex is_compile X"
          "exc = None \<longrightarrow> \<not> list_ex is_failed_render X"
        by blast
      show ?thesis
        apply (rule exI [where x = "map (Job_write job_id) (scene_writes tot i)
                                     @ [Render_scene (s_id (scene_of st ref)) ?outcome] @ X"])
        apply (rule exI [where x = "Suc n"])
        using X Inr by (simp add: scene_writes_def)
    qed
  qed
qed

lemma render_loop_done_scene:
  "render_loop env job_id tot i refs st = (exc, st') \<Longrightarrow>
     s_status (scene_of st x) = completed \<Longrightarrow> truthy (s_video_url (scene_of st x)) \<Longrightarrow>
     scenes_db st' x = scenes_db st x"
proof (induction refs arbitrary: i st)
  case Nil
  then show ?case by simp
next
  case (Cons ref rest)
  let ?st1 = "seq [job_write job_id
                       (Status (''Rendering scene '' @ str_nat (i + 1) @ ''/'' @ str_nat tot)),
                     job_write job_id (Progress (scene_progress i tot))] st"
  let ?st2 = "scene_write ref (\<lambda>s. s\<lparr>s_status := rendering\<rparr>) ?st1"
  let ?outcome = "render_scene env (s_code (scene_of ?st2 ref)) (s_id (scene_of st ref))"
  let ?st3 = "log_effect (Render_scene (s_id (scene_of st ref)) ?outcome) ?st2"
  show ?case
  proof (cases "s_status (scene_of ?st1 ref) \<noteq> completed \<or> \<not> truthy (s_video_url (scene_of ?st1 ref))")
    case False
    with Cons.prems have "render_loop env job_id tot (Suc i) rest ?st1 = (exc, st')"
      by (simp add: Let_def)
    from Cons.IH [OF this] Cons.prems(2,3) show ?thesis
      by simp
  next
    case True
    with Cons.prems(2,3) have neq: "x \<noteq> ref"
      by auto
    show ?thesis
    proof (cases ?outcome)
      case (Inl e)
      with True Cons.prems(1) have "st' = scene_write ref (render_failed e) ?st3"
        by (simp add: Let_def)
      with neq show ?thesis
        by simp
    next
      case (Inr result)
      with True Cons.prems(1) have
        "render_loop env job_id tot (Suc i) rest (scene_write ref (rendered result) ?st3) = (exc, st')"
        by (simp add: Let_def)
      from Cons.IH [OF this] Cons.prems(2,3) neq show ?thesis
        by simp
    qed
  qed
qed

lemma render_loop_s_id:
  "render_loop env job_id tot i refs st = (exc, st') \<Longrightarrow>
     s_id (scene_of st' x) = s_id (scene_of st x)"
proof (induction refs arbitrary: i st)
  case Nil
  then show ?case by simp
next
  case (Cons ref rest)
  from Cons.prems show ?case
    by (auto simp: Let_def rendered_def render_failed_def split: if_splits sum.splits
        dest!: Cons.IH)
qed

lemma render_loop_failure:
  "render_loop env job_id tot i refs st = (Some m, st') \<Longrightarrow>
     \<exists>k e X. k < length refs
       \<and> m = ''Failed to render scene '' @ str_nat (i + k + 1) @ '': '' @ e
       \<and> s_status (scene_of st' (refs ! k)) = failed
       \<and> s_error_message (scene_of st' (refs ! k)) = Some e
       \<and> (\<forall>j < k. s_status (scene_of st' (refs ! j)) = completed)
       \<and> (\<forall>x. x \<notin> set (take (Suc k) refs) \<longrightarrow> scenes_db st' x = scenes_db st x)
       \<and> effects st' = effects st @ X
       \<and> (\<forall>sid' e'. Render_scene sid' (Inl e') \<in> set X \<longrightarrow>
             sid' = s_id (scene_of st (refs ! k)) \<and> e' = e)"
proof (induction refs arbitrary: i st)
  case Nil
  then show ?case by simp
next
  case (Cons ref rest)
  let ?st1 = "seq [job_write job_id
                       (Status (''Rendering scene '' @ str_nat (i + 1) @ ''/'' @ str_nat tot)),
                     job_write job_id (Progress (scene_progress i tot))] st"
  let ?st2 = "scene_write ref (\<lambda>s. s\<lparr>s_status := rendering\<rparr>) ?st1"
  let ?outcome = "render_scene env (s_code (scene_of ?st2 ref)) (s_id (scene_of st ref))"
  let ?st3 = "log_effect (Render_scene (s_id (scene_of st ref)) ?outcome) ?st2"
  have step: "\<exists>k e X. k < length (ref # rest)
       \<and> m = ''Failed to render scene '' @ str_nat (i + k + 1) @ '': '' @ e
       \<and> s_status (scene_of st' ((ref # rest) ! k)) = failed
       \<and> s_error_message (scene_of st' ((ref # rest) ! k)) = Some e
       \<and> (\<forall>j < k. s_status (scene_of st' ((ref # rest) ! j)) = completed)
       \<and> (\<forall>x. x \<notin> set (take (Suc k) (ref # rest)) \<longrightarrow> scenes_db st' x = scenes_db st x)
       \<and> effects st' = effects st @ X
       \<and> (\<forall>sid' e'. Render_scene sid' (Inl e') \<in> set X \<longrightarrow>
             sid' = s_id (scene_of st ((ref # rest) ! k)) \<and> e' = e)"
    if loop: "render_loop env job_id tot (Suc i) rest mid = (Some m, st')"
      and mid_ref: "s_status (scene_of mid ref) = completed" "truthy (s_video_url (scene_of mid ref))"
      and mid_other: "\<And>x. x \<noteq> ref \<Longrightarrow> scenes_db mid x = scenes_db st x"
      and mid_id: "\<And>x. s_id (scene_of mid x) = s_id (scene_of st x)"
      and mid_effects: "effects mid = effects st @ Y"
      and Y: "\<And>sid' e'. Render_scene sid' (Inl e') \<notin> set Y"
    for mid Y
  proof -
    from Cons.IH [OF loop] obtain k e X where
      k: "k < length rest"
        "m = ''Failed to render scene '' @ str_nat (Suc i + k + 1) @ '': '' @ e"
        "s_status (scene_of st' (rest ! k)) = failed"
        "s_error_message (scene_of st' (rest ! k)) = Some e"
        "\<forall>j < k. s_status (scene_of st' (rest ! j)) = completed"
        "\<forall>x. x \<notin> set (take (Suc k) rest) \<longrightarrow> scenes_db st' x = scenes_db mid x"
        "effects st' = effects mid @ X"
        "\<forall>sid' e'. Render_scene sid' (Inl e') \<in> set X \<longrightarrow>
             sid' = s_id (scene_of mid (rest ! k)) \<and> e' = e"
      by blast
    have "scenes_db st' ref = scenes_db mid ref"
      using loop mid_ref by (rule render_loop_done_scene)
    with mid_ref(1) have compl: "s_status (scene_of st' ref) = completed"
      by (simp add: scene_of_def)
    have 1: "Suc k < length (ref # rest)"
      using k(1) by simp
    have 2: "m = ''Failed to render scene '' @ str_nat (i + Suc k + 1) @ '': '' @ e"
      using k(2) by simp
    have 3: "s_status (scene_of st' ((ref # rest) ! Suc k)) = failed"
      using k(3) by simp
    have 4: "s_error_message (scene_of st' ((ref # rest) ! Suc k)) = Some e"
      using k(4) by simp
    have 5: "\<forall>j < Suc k. s_status (scene_of st' ((ref # rest) ! j)) = completed"
      using k(5) compl by (simp add: nth_Cons split: nat.splits)
    have 6: "\<forall>x. x \<notin> set (take (Suc (Suc k)) (ref # rest)) \<longrightarrow> scenes_db st' x = scenes_db st x"
      using k(6) mid_other by simp
    have 7: "effects st' = effects st @ (Y @ X)"
      using k(7) mid_effects by simp
    have 8: "\<forall>sid' e'. Render_scene sid' (Inl e') \<in> set (Y @ X) \<longrightarrow>
             sid' = s_id (scene_of st ((ref # rest) ! Suc k)) \<and> e' = e"
      using k(8) Y mid_id by simp
    from 1 2 3 4 5 6 7 8 show ?thesis
      by blast
  qed
  show ?case
  proof (cases "s_status (scene_of ?st1 ref) \<noteq> completed \<or> \<not> truthy (s_video_url (scene_of ?st1 ref))")
    case False
    with Cons.prems have loop: "render_loop env job_id tot (Suc i) rest ?st1 = (Some m, st')"
      by (simp add: Let_def)
    show ?thesis
    proof (rule step [OF loop])
      show "effects ?st1 = effects st @ map (Job_write job_id) (scene_writes tot i)"
        by (simp add: scene_writes_def)
      show "\<And>sid' e'. Render_scene sid' (Inl e') \<notin> set (map (Job_write job_id) (scene_writes tot i))"
        by (simp add: scene_writes_def)
    qed (use False in simp_all)
  next
    case True
    show ?thesis
    proof (cases ?outcome)
      case (Inl e)
      with True Cons.prems have
        m: "m = ''Failed to render scene '' @ str_nat (i + 0 + 1) @ '': '' @ e"
        and st': "st' = scene_write ref (render_failed e) ?st3"
        by (simp_all add: Let_def)
      have 1: "0 < length (ref # rest)"
        by simp
      have 3: "s_status (scene_of st' ((ref # rest) ! 0)) = failed"
        by (simp add: st' render_failed_def)
      have 4: "s_error_message (scene_of st' ((ref # rest) ! 0)) = Some e"
        by (simp add: st' render_failed_def)
      have 5: "\<forall>j < (0::nat). s_status (scene_of st' ((ref # rest) ! j)) = completed"
        by simp
      have 6: "\<forall>x. x \<notin> set (take (Suc 0) (ref # rest)) \<longrightarrow> scenes_db st' x = scenes_db st x"
        by (simp add: st')
      have 7: "effects st' = effects st @ (map (Job_write job_id) (scene_writes tot i)
                 @ [Render_scene (s_id (scene_of st ref)) (Inl e)])"
        using Inl by (simp add: st' scene_writes_def)
      have 8: "\<forall>sid' e'. Render_scene sid' (Inl e') \<in> set (map (Job_write job_id) (scene_writes tot i)
                 @ [Render_scene (s_id (scene_of st ref)) (Inl e)]) \<longrightarrow>
             sid' = s_id (scene_of st ((ref # rest) ! 0)) \<and> e' = e"
        by (simp add: scene_writes_def)
      from 1 m 3 4 5 6 7 8 show ?thesis
        by blast
    next
      case (Inr result)
      let ?st4 = "scene_write ref (rendered result) ?st3"
      from Inr True Cons.prems have loop:
        "render_loop env job_id tot (Suc i) rest ?st4 = (Some m, st')"
        by (simp add: Let_def)
      from Inr have url: "video_url result \<noteq> []"
        by (rule render_scene_video_url)
      show ?thesis
      proof (rule step [OF loop])
        show "effects ?st4 = effects st @ (map (Job_write job_id) (scene_writes tot i)
                 @ [Render_scene (s_id (scene_of st ref)) (Inr result)])"
          using Inr by (simp add: scene_writes_def)
        show "\<And>sid' e'. Render_scene sid' (Inl e') \<notin> set (map (Job_write job_id) (scene_writes tot i)
                 @ [Render_scene (s_id (scene_of st ref)) (Inr result)])"
          by (simp add: scene_writes_def)
        show "truthy (s_video_url (scene_of ?st4 ref))"
          using url by (simp add: rendered_def)
      qed (simp_all add: rendered_def)
    qed
  qed
qed

lemma nth_not_in_take:
  "distinct xs \<Longrightarrow> k < i \<Longrightarrow> i < length xs \<Longrightarrow> xs ! i \<notin> set (take (Suc k) xs)"
  by (auto simp: in_set_conv_nth nth_eq_iff_index_eq)

lemma list_ex_is_compile_append [simp]:
  "list_ex is_compile (xs @ ys) \<longleftrightarrow> list_ex is_compile xs \<or> list_ex is_compile ys"
  by simp

text \<open>
  C1. Take a run of \<^verbatim>\<open>process_render_all_and_combine\<close> in which a call of the render
  service failed, for scene \<open>sid\<close> with error \<open>e\<close>. Then that scene stands at some
  index \<open>k\<close> of the sorted scene list; the job ends with status \<^verbatim>\<open>failed\<close> and the
  message \<^verbatim>\<open>Failed to render scene k+1: e\<close>; the scene is marked failed with \<open>e\<close> as
  its error; every scene before it is completed; every scene that does not stand at an
  index up to \<open>k\<close> is as it was before the run, so that, the scene list having no
  duplicates, all scenes after index \<open>k\<close> are untouched; and \<^verbatim>\<open>compile_project\<close> is not
  called.
\<close>

theorem render_failure_aborts_job:
  assumes project: "projects_db st project_id = Some project"
    and job: "render_jobs st job_id \<noteq> None"
    and st': "st' = process_render_all_and_combine env job_id project_id st"
    and refs: "refs = scene_refs st project"
    and failure: "Render_scene sid (Inl e) \<in> set (trace st st')"
  shows "\<exists>k < length refs. \<exists>j.
      s_id (scene_of st (refs ! k)) = sid
    \<and> render_jobs st' job_id = Some j \<and> j_status j = ''failed''
    \<and> j_error_message j = Some (''Failed to render scene '' @ str_nat (k + 1) @ '': '' @ e)
    \<and> s_status (scene_of st' (refs ! k)) = failed
    \<and> s_error_message (scene_of st' (refs ! k)) = Some e
    \<and> (\<forall>i < k. s_status (scene_of st' (refs ! i)) = completed)
    \<and> (\<forall>x. x \<notin> set (take (Suc k) refs) \<longrightarrow> scenes_db st' x = scenes_db st x)
    \<and> (distinct refs \<longrightarrow>
         (\<forall>i. k < i \<and> i < length refs \<longrightarrow> scenes_db st' (refs ! i) = scenes_db st (refs ! i)))
    \<and> \<not> list_ex is_compile (trace st st')"
proof -
  obtain exc st1 where loop: "render_loop env job_id (length refs) 0 refs st = (exc, st1)"
    by (cases "render_loop env job_id (length refs) 0 refs st") auto
  from render_loop_effects [OF loop] obtain X where
    X: "effects st1 = effects st @ X" "\<not> list_ex is_compile X"
      "exc = None \<longrightarrow> \<not> list_ex is_failed_render X"
    by blast
  from render_loop_keeps_job [OF loop job] obtain j1 where j1: "render_jobs st1 job_id = Some j1"
    by auto
  from job obtain j0 where j0: "render_jobs st job_id = Some j0"
    by auto
  show ?thesis
  proof (cases exc)
    case None
    let ?st2 = "seq [job_write job_id (Status ''Combining scenes''),
                     job_write job_id (Progress 85)] st1"
    let ?urls = "map (\<lambda>ref. s_video_url (scene_of ?st2 ref)) refs"
    let ?outcome = "compile_project env ?urls project_id (p_audio_url project)"
    from None X(3) have "\<not> list_ex is_failed_render X"
      by simp
    then have no: "Render_scene sid (Inl e) \<notin> set X"
      by (auto simp: list_ex_iff)
    from None loop project j0 refs st' X(1) have
      "effects st' = effects st @ (X @ [Job_write job_id (Status ''Combining scenes''),
          Job_write job_id (Progress 85), Compile_project ?urls ?outcome]
        @ (case snd ?outcome of
             Inr url \<Rightarrow> [Job_write job_id (Progress 100), Job_write job_id (Status ''completed''),
                          Job_write job_id (Output_url url)]
           | Inl err \<Rightarrow> [Job_write job_id (Status ''failed''),
                          Job_write job_id (Error_message err)]))"
      by (simp add: process_render_all_and_combine_def Let_def split: sum.splits)
    from trace_append [OF this] failure no have False
      by (auto split: sum.splits)
    then show ?thesis ..
  next
    case (Some m)
    from loop Some have loop': "render_loop env job_id (length refs) 0 refs st = (Some m, st1)"
      by simp
    from render_loop_failure [OF loop'] obtain k e0 X0 where
      k: "k < length refs"
        "m = ''Failed to render scene '' @ str_nat (0 + k + 1) @ '': '' @ e0"
        "s_status (scene_of st1 (refs ! k)) = failed"
        "s_error_message (scene_of st1 (refs ! k)) = Some e0"
        "\<forall>j < k. s_status (scene_of st1 (refs ! j)) = completed"
        "\<forall>x. x \<notin> set (take (Suc k) refs) \<longrightarrow> scenes_db st1 x = scenes_db st x"
        "effects st1 = effects st @ X0"
        "\<forall>sid' e'. Render_scene sid' (Inl e') \<in> set X0 \<longrightarrow>
             sid' = s_id (scene_of st (refs ! k)) \<and> e' = e0"
      by blast
    from X(1) k(7) have "X0 = X"
      by simp
    from Some loop project j0 refs st' have
      final: "st' = seq [job_write job_id (Status ''failed''),
                         job_write job_id (Error_message m)] st1"
      by (simp add: process_render_all_and_combine_def Let_def)
    then have "effects st' = effects st @ (X @ [Job_write job_id (Status ''failed''),
                 Job_write job_id (Error_message m)])"
      using X(1) by simp
    then have tr: "trace st st' = X @ [Job_write job_id (Status ''failed''),
                 Job_write job_id (Error_message m)]"
      by (rule trace_append)
    with failure have "Render_scene sid (Inl e) \<in> set X0"
      using \<open>X0 = X\<close> by simp
    with k(8) have same: "sid = s_id (scene_of st (refs ! k))" "e = e0"
      by auto
    have scenes: "scenes_db st' = scenes_db st1"
      by (simp add: final)
    then have of: "scene_of st' = scene_of st1"
      by (simp add: scene_of_def fun_eq_iff)
    have 1: "s_id (scene_of st (refs ! k)) = sid"
      using same by simp
    have 2: "render_jobs st' job_id =
               Some (j1\<lparr>j_status := ''failed'', j_error_message := Some m\<rparr>)"
      using j1 by (simp add: final)
    have 3: "j_status (j1\<lparr>j_status := ''failed'', j_error_message := Some m\<rparr>) = ''failed''"
      by simp
    have 4: "j_error_message (j1\<lparr>j_status := ''failed'', j_error_message := Some m\<rparr>) =
               Some (''Failed to render scene '' @ str_nat (k + 1) @ '': '' @ e)"
      using k(2) same by simp
    have 5: "s_status (scene_of st' (refs ! k)) = failed"
      using k(3) of by simp
    have 6: "s_error_message (scene_of st' (refs ! k)) = Some e"
      using k(4) of same by simp
    have 7: "\<forall>i < k. s_status (scene_of st' (refs ! i)) = completed"
      using k(5) of by simp
    have 8: "\<forall>x. x \<notin> set (take (Suc k) refs) \<longrightarrow> scenes_db st' x = scenes_db st x"
      using k(6) scenes by simp
    have 9: "distinct refs \<longrightarrow>
         (\<forall>i. k < i \<and> i < length refs \<longrightarrow> scenes_db st' (refs ! i) = scenes_db st (refs ! i))"
      using 8 nth_not_in_take by blast
    have 10: "\<not> list_ex is_compile (trace st st')"
      using X(2) by (simp add: tr)
    from k(1) 1 2 3 4 5 6 7 8 9 10 show ?thesis
      by blast
  qed
qed

lemma example_refs: "scene_refs example_state example_project = [''s1'', ''s2'', ''s3'']"
  by (simp add: scene_refs_def example_state_def example_project_def example_scene_def scene_of_def)

lemma example_render_s2:
  "render_scene example_env (Some ''from manim import *'') ''s2'' = Inl ''Manim render failed: boom''"
  by (simp add: render_scene_def example_env_def)

lemma example_render_s1:
  "render_scene example_env (Some ''from manim import *'') ''s1'' =
     Inr \<lparr> video_url = ''/outputs/s1.mp4'', thumbnail_url = None, duration = 3 \<rparr>"
  by (simp add: render_scene_def example_env_def get_video_duration_def path_join_def)

lemma example_failed_effects:
  "effects example_failed_run =
     [Job_write ''j1'' (Status ''Rendering scene 1/3''),
      Job_write ''j1'' (Progress (scene_progress 0 3)),
      Render_scene ''s1'' (Inr \<lparr> video_url = ''/outputs/s1.mp4'', thumbnail_url = None, duration = 3 \<rparr>),
      Job_write ''j1'' (Status ''Rendering scene 2/3''),
      Job_write ''j1'' (Progress (scene_progress 1 3)),
      Render_scene ''s2'' (Inl ''Manim render failed: boom''),
      Job_write ''j1'' (Status ''failed''),
      Job_write ''j1'' (Error_message ''Failed to render scene 2: Manim render failed: boom'')]"
proof -
  have p: "projects_db example_state ''p1'' = Some example_project"
    by (simp add: example_state_def)
  have s: "scene_of example_state ''s1'' = example_scene ''s1'' 0"
    "scene_of example_state ''s2'' = example_scene ''s2'' 1"
    by (simp_all add: scene_of_def example_state_def)
  have e: "effects example_state = []" "render_jobs example_state ''j1'' \<noteq> None"
    by (simp_all add: example_state_def)
  have n: "str_nat (Suc 0) = ''1''" "str_nat (Suc (Suc 0)) = ''2''"
    "str_nat (Suc (Suc (Suc 0))) = ''3''"
    by (simp_all add: str_nat.simps digit_char_def)
  show ?thesis
    using e by (simp add: example_failed_run_def process_render_all_and_combine_def p example_refs
      Let_def s example_scene_def example_render_s1 example_render_s2 n eval_nat_numeral)
qed

theorem render_failure_aborts_job_witness:
  "Render_scene ''s2'' (Inl ''Manim render failed: boom'')
     \<in> set (trace example_state example_failed_run)
   \<and> (\<exists>j. render_jobs example_failed_run ''j1'' = Some j \<and> j_status j = ''failed''
          \<and> j_error_message j = Some ''Failed to render scene 2: Manim render failed: boom'')
   \<and> s_status (scene_of example_failed_run ''s2'') = failed
   \<and> s_error_message (scene_of example_failed_run ''s2'') = Some ''Manim render failed: boom''
   \<and> s_status (scene_of example_failed_run ''s1'') = completed
   \<and> scenes_db example_failed_run ''s3'' = scenes_db example_state ''s3''
   \<and> \<not> list_ex is_compile (trace example_state example_failed_run)"
proof -
  let ?refs = "[''s1'', ''s2'', ''s3'']"
  have p: "projects_db example_state ''p1'' = Some example_project"
    and j: "render_jobs example_state ''j1'' \<noteq> None"
    and e: "effects example_state = []"
    by (simp_all add: example_state_def)
  have failure: "Render_scene ''s2'' (Inl ''Manim render failed: boom'')
     \<in> set (trace example_state example_failed_run)"
    by (simp add: trace_def e example_failed_effects)
  from render_failure_aborts_job [OF p j example_failed_run_def example_refs [symmetric] failure]
  obtain k j where k: "k < length ?refs"
    and sid: "s_id (scene_of example_state (?refs ! k)) = ''s2''"
    and job: "render_jobs example_failed_run ''j1'' = Some j" "j_status j = ''failed''"
      "j_error_message j =
         Some (''Failed to render scene '' @ str_nat (k + 1) @ '': '' @ ''Manim render failed: boom'')"
    and scene: "s_status (scene_of example_failed_run (?refs ! k)) = failed"
      "s_error_message (scene_of example_failed_run (?refs ! k)) = Some ''Manim render failed: boom''"
    and before: "\<forall>i < k. s_status (scene_of example_failed_run (?refs ! i)) = completed"
    and after: "distinct ?refs \<longrightarrow> (\<forall>i. k < i \<and> i < length ?refs \<longrightarrow>
         scenes_db example_failed_run (?refs ! i) = scenes_db example_state (?refs ! i))"
    and compile: "\<not> list_ex is_compile (trace example_state example_failed_run)"
    by blast
  from k have "k = 0 \<or> k = 1 \<or> k = 2"
    by auto
  with sid have k1: "k = 1"
    by (auto simp: scene_of_def example_state_def example_scene_def)
  have "str_nat (Suc (Suc 0)) = ''2''"
    by (simp add: str_nat.simps digit_char_def)
  with job k1 have job': "\<exists>j. render_jobs example_failed_run ''j1'' = Some j \<and> j_status j = ''failed''
          \<and> j_error_message j = Some ''Failed to render scene 2: Manim render failed: boom''"
    by simp
  from before k1 have s1: "s_status (scene_of example_failed_run ''s1'') = completed"
    by simp
  have "distinct ?refs"
    by simp
  with after have "k < 2 \<and> 2 < length ?refs \<longrightarrow>
      scenes_db example_failed_run (?refs ! 2) = scenes_db example_state (?refs ! 2)"
    by blast
  with k1 have s3: "scenes_db example_failed_run ''s3'' = scenes_db example_state ''s3''"
    by simp
  from failure job' scene k1 s1 s3 compile show ?thesis
    by simp
qed

section \<open>Terminal states\<close>





lemma scene_refs_job_write [simp]:
  "scene_refs (job_write job_id w st) project = scene_refs st project"
  by (simp add: scene_refs_def)

lemma process_export_effects_explicit:
  fixes env :: env
  assumes "projects_db st project_id = Some project" and "render_jobs st job_id = Some j"
  defines "urls \<equiv> map (\<lambda>ref. s_video_url (scene_of st ref)) (scene_refs st project)"
  defines "outcome \<equiv> compile_project env urls project_id (p_audio_url project)"
  shows "effects (process_export env job_id project_id st) =
     effects st @
       [Job_write job_id (Status ''compiling''), Job_write job_id (Progress 10),
        Compile_project urls outcome]
       @ (case snd outcome of
            Inr url \<Rightarrow>
              [Job_write job_id (Progress 100), Job_write job_id (Status ''completed''),
               Job_write job_id (Output_url url)]
          | Inl e \<Rightarrow>
              [Job_write job_id (Status ''failed''), Job_write job_id (Error_message e)])"
  using assms(1,2) unfolding urls_def outcome_def
  by (cases "snd (compile_project env
        (map (\<lambda>ref. s_video_url (scene_of st ref)) (scene_refs st project))
        project_id (p_audio_url project))")
    (simp_all add: process_export_def Let_def)


lemma process_render_all_and_combine_effects_explicit:
  assumes "projects_db st project_id = Some project" and "render_jobs st job_id = Some j"
    and "render_loop env job_id (length (scene_refs st project)) 0 (scene_refs st project) st
           = (exc, st1)"
    and "effects st1 = effects st @ X"
  defines "urls \<equiv> map (\<lambda>ref. s_video_url (scene_of st1 ref)) (scene_refs st project)"
  defines "outcome \<equiv> compile_project env urls project_id (p_audio_url project)"
  shows "effects (process_render_all_and_combine env job_id project_id st) =
     effects st @ X @
       (case exc of
          Some m \<Rightarrow> [Job_write job_id (Status ''failed''), Job_write job_id (Error_message m)]
        | None \<Rightarrow>
            [Job_write job_id (Status ''Combining scenes''), Job_write job_id (Progress 85),
             Compile_project urls outcome]
            @ (case snd outcome of
                 Inr url \<Rightarrow>
                   [Job_write job_id (Progress 100), Job_write job_id (Status ''completed''),
                    Job_write job_id (Output_url url)]
               | Inl e \<Rightarrow>
                   [Job_write job_id (Status ''failed''), Job_write job_id (Error_message e)]))"
proof (cases exc)
  case (Some m)
  with assms(1-4) show ?thesis
    by (simp add: process_render_all_and_combine_def Let_def)
next
  case None
  with assms(1-4) show ?thesis
    unfolding urls_def outcome_def
    by (cases "snd (compile_project env
          (map (\<lambda>ref. s_video_url (scene_of st1 ref)) (scene_refs st project))
          project_id (p_audio_url project))")
      (simp_all add: process_render_all_and_combine_def Let_def)
qed











section \<open>Progress of a job\<close>

lemma powi_diff_nat: "(2::rat) powi (int a - int b) = 2 ^ a / 2 ^ b"
  by (simp add: power_int_diff)

lemma binade_bounds:
  assumes "0 < x"
  shows "2 powi binade x \<le> x \<and> x < 2 powi (binade x + 1)"
proof -
  obtain p q where pq: "quotient_of x = (p, q)"
    by (cases "quotient_of x") auto
  then have q: "0 < q" and x: "x = of_int p / of_int q"
    by (simp_all add: quotient_of_denom_pos quotient_of_div)
  with assms have p: "0 < p"
    by (simp add: zero_less_divide_iff)
  define a where "a = nat (bitlen p - 1)"
  define b where "b = nat (bitlen q - 1)"
  from p q have "bitlen p \<noteq> 0" "bitlen q \<noteq> 0"
    by (simp_all add: bitlen_eq_zero_iff)
  with bitlen_nonneg [of p] bitlen_nonneg [of q]
  have bl: "bitlen p = int a + 1" "bitlen q = int b + 1"
    by (simp_all add: a_def b_def)
  have na: "nat (bitlen p - 1) = a" "nat (bitlen p) = Suc a"
    and nb: "nat (bitlen q - 1) = b" "nat (bitlen q) = Suc b"
    unfolding bl by simp_all
  from bitlen_bounds [OF p] have "2 ^ a \<le> p" "p < 2 ^ Suc a"
    unfolding na by simp_all
  then have "(of_int (2 ^ a) :: rat) \<le> of_int p" "(of_int p :: rat) < of_int (2 ^ Suc a)"
    by (simp_all only: of_int_le_iff of_int_less_iff)
  then have P: "(2::rat) ^ a \<le> of_int p" "of_int p < (2::rat) ^ Suc a"
    by simp_all
  from bitlen_bounds [OF q] have "2 ^ b \<le> q" "q < 2 ^ Suc b"
    unfolding nb by simp_all
  then have "(of_int (2 ^ b) :: rat) \<le> of_int q" "(of_int q :: rat) < of_int (2 ^ Suc b)"
    by (simp_all only: of_int_le_iff of_int_less_iff)
  then have Q: "(2::rat) ^ b \<le> of_int q" "of_int q < (2::rat) ^ Suc b"
    by simp_all
  have d: "bitlen p - bitlen q = int a - int b"
    by (simp add: bl)
  have lower: "2 powi (int a - int b - 1) \<le> x"
  proof -
    have "(2::rat) ^ a / 2 ^ Suc b \<le> of_int p / of_int q"
      using P(1) Q(2) p q by (intro frac_le) simp_all
    moreover have "(2::rat) powi (int a - int b - 1) = 2 ^ a / 2 ^ Suc b"
      using powi_diff_nat [of a "Suc b"] by (simp add: algebra_simps)
    ultimately show ?thesis
      by (simp add: x)
  qed
  have upper: "x < 2 powi (int a - int b + 1)"
  proof -
    have "of_int p / of_int q < (2::rat) ^ Suc a / 2 ^ b"
      using P(2) Q(1) p q by (intro frac_less) simp_all
    moreover have "(2::rat) powi (int a - int b + 1) = 2 ^ Suc a / 2 ^ b"
      using powi_diff_nat [of "Suc a" b] by (simp add: algebra_simps)
    ultimately show ?thesis
      by (simp add: x)
  qed
  show ?thesis
  proof (cases "2 powi (int a - int b) \<le> x")
    case True
    then have "binade x = int a - int b"
      by (simp add: binade_def pq d)
    with True upper show ?thesis
      by simp
  next
    case False
    then have "binade x = int a - int b - 1"
      by (simp add: binade_def pq d)
    with False lower show ?thesis
      by simp
  qed
qed

lemma powi_less_cancel: "(2::rat) powi a < 2 powi b \<Longrightarrow> a < b"
  using power_int_increasing [of b a "2::rat"] by (cases "a < b") simp_all

lemma binade_unique:
  assumes "2 powi e \<le> x" and "x < 2 powi (e + 1)"
  shows "binade x = e"
proof -
  have "(0::rat) < 2 powi e"
    by simp
  from this assms(1) have pos: "0 < x"
    by (rule less_le_trans)
  note b = binade_bounds [OF pos]
  have "(2::rat) powi e < 2 powi (binade x + 1)"
    using assms(1) b by simp
  then have 1: "e < binade x + 1"
    by (rule powi_less_cancel)
  have "(2::rat) powi binade x < 2 powi (e + 1)"
    using assms(2) b by simp
  then have 2: "binade x < e + 1"
    by (rule powi_less_cancel)
  from 1 2 show ?thesis
    by simp
qed

lemma binade_mono:
  assumes "0 < x" and "x \<le> y"
  shows "binade x \<le> binade y"
proof -
  from assms have "0 < y"
    by simp
  from binade_bounds [OF assms(1)] binade_bounds [OF this] assms(2)
  have "(2::rat) powi binade x < 2 powi (binade y + 1)"
    by simp
  then have "binade x < binade y + 1"
    by (rule powi_less_cancel)
  then show ?thesis
    by simp
qed

lemma round_half_even_error: "\<bar>of_int (round_half_even y) - y\<bar> \<le> 1 / 2"
proof -
  have "of_int \<lfloor>y\<rfloor> \<le> y" "y < of_int \<lfloor>y\<rfloor> + 1"
    by linarith+
  then show ?thesis
    by (auto simp: round_half_even_def Let_def)
qed

lemma round_half_even_unique:
  assumes "\<bar>y - of_int m\<bar> < 1 / 2"
  shows "round_half_even y = m"
proof -
  from round_half_even_error [of y] assms
  have "\<bar>(of_int (round_half_even y) :: rat) - of_int m\<bar> < 1"
    by linarith
  then have "\<bar>(of_int (round_half_even y - m) :: rat)\<bar> < 1"
    by simp
  then have "\<bar>round_half_even y - m\<bar> < 1"
    by (metis of_int_abs of_int_less_1_iff)
  then show ?thesis
    by simp
qed

lemma round_half_even_of_int [simp]: "round_half_even (of_int n) = n"
  by (rule round_half_even_unique) simp

lemma round_half_even_mono:
  assumes "x \<le> y"
  shows "round_half_even x \<le> round_half_even y"
proof (cases "\<lfloor>x\<rfloor> = \<lfloor>y\<rfloor>")
  case True
  with assms show ?thesis
    by (auto simp: round_half_even_def Let_def)
next
  case False
  with assms have "\<lfloor>x\<rfloor> + 1 \<le> \<lfloor>y\<rfloor>"
    using floor_mono [of x y] by linarith
  moreover have "round_half_even x \<le> \<lfloor>x\<rfloor> + 1"
    by (simp add: round_half_even_def Let_def)
  moreover have "\<lfloor>y\<rfloor> \<le> round_half_even y"
    by (simp add: round_half_even_def Let_def)
  ultimately show ?thesis
    by linarith
qed

lemma float64_pos:
  "0 < x \<Longrightarrow>
     float64 x = of_int (round_half_even (x / 2 powi (binade x - 52))) * 2 powi (binade x - 52)"
  by (simp add: float64_def Let_def)

lemma float64_eqI:
  assumes "2 powi e \<le> x" and "x < 2 powi (e + 1)"
    and "\<bar>x / 2 powi (e - 52) - of_int m\<bar> < 1 / 2"
  shows "float64 x = of_int m * 2 powi (e - 52)"
proof -
  have "(0::rat) < 2 powi e"
    by simp
  from this assms(1) have pos: "0 < x"
    by (rule less_le_trans)
  from assms(1,2) have "binade x = e"
    by (rule binade_unique)
  moreover from assms(3) have "round_half_even (x / 2 powi (e - 52)) = m"
    by (rule round_half_even_unique)
  ultimately show ?thesis
    by (simp add: float64_pos [OF pos])
qed

lemma float64_error:
  assumes "0 < x"
  shows "\<bar>float64 x - x\<bar> \<le> x / 2 ^ 53"
proof -
  define u :: rat where "u = 2 powi (binade x - 52)"
  define r where "r = round_half_even (x / u)"
  have u: "0 < u"
    by (simp add: u_def)
  have "\<bar>of_int r - x / u\<bar> \<le> 1 / 2"
    unfolding r_def by (rule round_half_even_error)
  then have scaled: "\<bar>of_int r - x / u\<bar> * u \<le> 1 / 2 * u"
    using u by (intro mult_right_mono) simp_all
  have eq: "(of_int r - x / u) * u = of_int r * u - x"
    using u by (simp add: left_diff_distrib)
  have "\<bar>of_int r - x / u\<bar> * u = \<bar>of_int r - x / u\<bar> * \<bar>u\<bar>"
    using u by simp
  also have "\<dots> = \<bar>(of_int r - x / u) * u\<bar>"
    by (simp only: abs_mult)
  also have "\<dots> = \<bar>of_int r * u - x\<bar>"
    by (simp only: eq)
  finally have err: "\<bar>of_int r * u - x\<bar> \<le> u / 2"
    using scaled by simp
  have "u = 2 powi binade x / 2 ^ 52"
    by (simp add: u_def power_int_diff)
  moreover have "2 powi binade x \<le> x"
    using binade_bounds [OF assms] by simp
  ultimately have "u / 2 \<le> x / 2 ^ 53"
    by (simp add: divide_right_mono)
  with err have "\<bar>of_int r * u - x\<bar> \<le> x / 2 ^ 53"
    by linarith
  then show ?thesis
    by (simp add: float64_pos [OF assms] r_def u_def)
qed

lemma round_half_even_nonneg: "0 \<le> y \<Longrightarrow> 0 \<le> round_half_even y"
  using round_half_even_mono [of 0 y] round_half_even_of_int [of 0] by simp

lemma float64_nonneg:
  assumes "0 \<le> x"
  shows "0 \<le> float64 x"
proof (cases "x = 0")
  case True
  then show ?thesis
    by (simp add: float64_def)
next
  case False
  with assms have pos: "0 < x"
    by simp
  then have "0 \<le> x / 2 powi (binade x - 52)"
    by simp
  then have "0 \<le> round_half_even (x / 2 powi (binade x - 52))"
    by (rule round_half_even_nonneg)
  then show ?thesis
    by (simp add: float64_pos [OF pos])
qed

lemma float64_mono:
  assumes "0 \<le> x" and "x \<le> y"
  shows "float64 x \<le> float64 y"
proof (cases "x = 0")
  case True
  with assms float64_nonneg [of y] show ?thesis
    by (simp add: float64_def)
next
  case False
  with assms have x: "0 < x" and y: "0 < y"
    by simp_all
  define ex ey where "ex = binade x" and "ey = binade y"
  define ux uy :: rat where "ux = 2 powi (ex - 52)" and "uy = 2 powi (ey - 52)"
  have ux: "0 < ux" and uy: "0 < uy"
    by (simp_all add: ux_def uy_def)
  have fx: "float64 x = of_int (round_half_even (x / ux)) * ux"
    and fy: "float64 y = of_int (round_half_even (y / uy)) * uy"
    by (simp_all add: float64_pos x y ux_def uy_def ex_def ey_def)
  from binade_mono [OF x assms(2)] have le: "ex \<le> ey"
    by (simp add: ex_def ey_def)
  show ?thesis
  proof (cases "ex = ey")
    case True
    then have same: "uy = ux"
      by (simp add: ux_def uy_def)
    from assms(2) ux have "x / ux \<le> y / ux"
      by (simp add: divide_right_mono)
    then have "round_half_even (x / ux) \<le> round_half_even (y / ux)"
      by (rule round_half_even_mono)
    then have "(of_int (round_half_even (x / ux)) :: rat) \<le> of_int (round_half_even (y / ux))"
      by simp
    with ux show ?thesis
      by (simp add: fx fy same)
  next
    case False
    with le have lt: "ex + 1 \<le> ey"
      by simp
    have "x < 2 powi (ex + 1)"
      using binade_bounds [OF x] by (simp add: ex_def)
    moreover have "2 powi (ex + 1) = 2 ^ 53 * ux"
      by (simp add: ux_def power_int_diff power_int_add)
    ultimately have "x / ux < of_int (2 ^ 53)"
      using ux by (simp add: pos_divide_less_eq)
    then have "x / ux \<le> of_int (2 ^ 53)"
      by simp
    then have "round_half_even (x / ux) \<le> round_half_even (of_int (2 ^ 53))"
      by (rule round_half_even_mono)
    then have "(of_int (round_half_even (x / ux)) :: rat) \<le> of_int (2 ^ 53)"
      unfolding round_half_even_of_int by (simp only: of_int_le_iff)
    then have "float64 x \<le> 2 ^ 53 * ux"
      using ux by (simp add: fx)
    also have "\<dots> = 2 powi (ex + 1)"
      by (simp add: ux_def power_int_diff power_int_add)
    also have "\<dots> \<le> 2 powi ey"
      using lt by (intro power_int_increasing) simp_all
    finally have upper: "float64 x \<le> 2 powi ey" .
    have "2 powi ey \<le> y"
      using binade_bounds [OF y] by (simp add: ey_def)
    moreover have "2 powi ey = 2 ^ 52 * uy"
      by (simp add: uy_def power_int_diff)
    ultimately have "of_int (2 ^ 52) \<le> y / uy"
      using uy by (simp add: pos_le_divide_eq)
    then have "round_half_even (of_int (2 ^ 52)) \<le> round_half_even (y / uy)"
      by (rule round_half_even_mono)
    then have "(of_int (2 ^ 52) :: rat) \<le> of_int (round_half_even (y / uy))"
      unfolding round_half_even_of_int by (simp only: of_int_le_iff)
    then have "2 ^ 52 * uy \<le> float64 y"
      using uy by (simp add: fy)
    then have "2 powi ey \<le> float64 y"
      by (simp add: uy_def power_int_diff)
    with upper show ?thesis
      by simp
  qed
qed

lemma float64_1: "float64 1 = 1"
  using float64_eqI [of 0 1 "2 ^ 52"] by (simp add: power_int_minus field_simps)

lemma float64_80: "float64 80 = 80"
  using float64_eqI [of 6 80 "80 * 2 ^ 46"] by (simp add: power_int_minus field_simps)

lemma round_half_even_tie:
  assumes "even m" and "\<bar>y - of_int m\<bar> \<le> 1 / 2"
  shows "round_half_even y = m"
proof (cases "\<bar>y - of_int m\<bar> < 1 / 2")
  case True
  then show ?thesis
    by (rule round_half_even_unique)
next
  case False
  with assms(2) have "y = of_int m + 1 / 2 \<or> y = of_int m - 1 / 2"
    by linarith
  then show ?thesis
  proof
    assume y: "y = of_int m + 1 / 2"
    then have "\<lfloor>y\<rfloor> = m"
      by (intro floor_unique) simp_all
    with y assms(1) show ?thesis
      by (simp add: round_half_even_def Let_def)
  next
    assume y: "y = of_int m - 1 / 2"
    then have "\<lfloor>y\<rfloor> = m - 1"
      by (intro floor_unique) simp_all
    with y assms(1) show ?thesis
      by (simp add: round_half_even_def Let_def)
  qed
qed

lemma float64_eqI_tie:
  assumes "2 powi e \<le> x" and "x < 2 powi (e + 1)"
    and "even m" and "\<bar>x / 2 powi (e - 52) - of_int m\<bar> \<le> 1 / 2"
  shows "float64 x = of_int m * 2 powi (e - 52)"
proof -
  have "(0::rat) < 2 powi e"
    by simp
  from this assms(1) have pos: "0 < x"
    by (rule less_le_trans)
  from assms(1,2) have "binade x = e"
    by (rule binade_unique)
  moreover from assms(3,4) have "round_half_even (x / 2 powi (e - 52)) = m"
    by (rule round_half_even_tie)
  ultimately show ?thesis
    by (simp add: float64_pos [OF pos])
qed

lemma certified_first_rounding:
  assumes "certified k m s e"
  shows "float64 (of_int k / 80) = of_int m / 2 ^ s"
proof -
  define K M S :: rat where "K = of_int k" and "M = of_int m" and "S = 2 ^ s"
  have S: "0 < S"
    by (simp add: S_def)
  from assms have "80 * 2 ^ 52 \<le> k * 2 ^ s" "k * 2 ^ s < 80 * 2 ^ 53"
    "\<bar>2 * k * 2 ^ s - 160 * m\<bar> < 80"
    by (simp_all add: certified_def)
  then have "(of_int (80 * 2 ^ 52) :: rat) \<le> of_int (k * 2 ^ s)"
    "(of_int (k * 2 ^ s) :: rat) < of_int (80 * 2 ^ 53)"
    "(of_int \<bar>2 * k * 2 ^ s - 160 * m\<bar> :: rat) < of_int 80"
    by (simp_all only: of_int_le_iff of_int_less_iff)
  then have a: "80 * 2 ^ 52 \<le> K * S" and b: "K * S < 80 * 2 ^ 53"
    and c: "\<bar>2 * K * S - 160 * M\<bar> < 80"
    by (simp_all add: K_def M_def S_def)
  have p1: "(2::rat) powi (52 - int s) = 2 ^ 52 / S"
    using power_int_diff [of "2::rat" 52 "int s"] by (simp add: S_def)
  have p2: "(2::rat) powi (52 - int s + 1) = 2 ^ 53 / S"
    using power_int_diff [of "2::rat" 53 "int s"] by (simp add: S_def)
  have p3: "(2::rat) powi (52 - int s - 52) = 1 / S"
    by (simp add: power_int_minus S_def field_simps)
  have 1: "2 powi (52 - int s) \<le> K / 80"
    using a S unfolding p1 by (simp add: field_simps)
  have 2: "K / 80 < 2 powi (52 - int s + 1)"
    using b S unfolding p2 by (simp add: field_simps)
  have "K / 80 / (1 / S) - M = (2 * K * S - 160 * M) / 160"
    by (simp add: field_simps)
  then have "\<bar>K / 80 / (1 / S) - M\<bar> = \<bar>(2 * K * S - 160 * M) / 160\<bar>"
    by (simp only:)
  also have "\<dots> = \<bar>2 * K * S - 160 * M\<bar> / 160"
    by (subst abs_divide) simp
  finally have "\<bar>K / 80 / (1 / S) - M\<bar> = \<bar>2 * K * S - 160 * M\<bar> / 160" .
  with c have 3: "\<bar>K / 80 / 2 powi (52 - int s - 52) - of_int m\<bar> < 1 / 2"
    unfolding p3 by (simp add: M_def)
  from float64_eqI [OF 1 2 3] have "float64 (K / 80) = of_int m * (1 / S)"
    unfolding p3 .
  then show ?thesis
    by (simp add: K_def S_def)
qed

lemma certified_second_rounding:
  assumes "certified k m s e"
  shows "float64 (of_int m / 2 ^ s * 80) = of_int k"
proof -
  define K M S E P :: rat where "K = of_int k" and "M = of_int m" and "S = 2 ^ s"
    and "E = 2 ^ e" and "P = 2 ^ (52 - e)"
  have S: "0 < S" and E: "0 < E" and P: "0 < P"
    by (simp_all add: S_def E_def P_def)
  from assms have e: "e < 52"
    by (simp add: certified_def)
  from assms have "2 ^ e * 2 ^ s \<le> 80 * m" "80 * m < 2 * 2 ^ e * 2 ^ s"
    "2 * 2 ^ (52 - e) * \<bar>80 * m - k * 2 ^ s\<bar> \<le> 2 ^ s"
    by (simp_all add: certified_def)
  then have "(of_int (2 ^ e * 2 ^ s) :: rat) \<le> of_int (80 * m)"
    "(of_int (80 * m) :: rat) < of_int (2 * 2 ^ e * 2 ^ s)"
    "(of_int (2 * 2 ^ (52 - e) * \<bar>80 * m - k * 2 ^ s\<bar>) :: rat) \<le> of_int (2 ^ s)"
    by (simp_all only: of_int_le_iff of_int_less_iff)
  then have a: "E * S \<le> 80 * M" and b: "80 * M < 2 * E * S"
    and c: "2 * P * \<bar>80 * M - K * S\<bar> \<le> S"
    by (simp_all add: K_def M_def S_def E_def P_def)
  have EP: "E * P = 2 ^ 52"
    using e by (simp add: E_def P_def power_add [symmetric])
  have p1: "(2::rat) powi int e = E"
    by (simp add: E_def)
  have p2: "(2::rat) powi (int e + 1) = 2 * E"
    by (simp add: E_def power_int_add)
  have "(2::rat) powi (int e - 52) = E / 2 ^ 52"
    using power_int_diff [of "2::rat" "int e" 52] by (simp add: E_def)
  also have "\<dots> = E / (E * P)"
    by (simp only: EP)
  also have "\<dots> = 1 / P"
    using E by simp
  finally have p3: "(2::rat) powi (int e - 52) = 1 / P" .
  have 1: "2 powi int e \<le> M / S * 80"
    using a S unfolding p1 by (simp add: field_simps)
  have 2: "M / S * 80 < 2 powi (int e + 1)"
    using b S unfolding p2 by (simp add: field_simps)
  have 3: "even (k * 2 ^ (52 - e))"
    using e by simp
  have "M / S * 80 / (1 / P) - of_int (k * 2 ^ (52 - e)) = P * (80 * M - K * S) / S"
    using S by (simp add: K_def P_def field_simps)
  then have "\<bar>M / S * 80 / (1 / P) - of_int (k * 2 ^ (52 - e))\<bar>
      = \<bar>P * (80 * M - K * S) / S\<bar>"
    by (simp only:)
  also have "\<dots> = P * \<bar>80 * M - K * S\<bar> / S"
    using S P by (simp add: abs_divide abs_mult)
  also have "\<dots> \<le> 1 / 2"
    using c S by (simp add: field_simps)
  finally have 4: "\<bar>M / S * 80 / 2 powi (int e - 52) - of_int (k * 2 ^ (52 - e))\<bar> \<le> 1 / 2"
    unfolding p3 .
  from float64_eqI_tie [OF 1 2 3 4] have "float64 (M / S * 80) = of_int (k * 2 ^ (52 - e)) * (1 / P)"
    by (simp only: p3)
  also have "\<dots> = K"
    using P by (simp add: K_def P_def)
  finally show ?thesis
    by (simp add: K_def M_def S_def)
qed

lemma progress_certificates_certified:
  "list_all (\<lambda>(k, m, s, e). certified k m s e) progress_certificates"
  unfolding progress_certificates_def certified_def by simp

lemma progress_certificates_complete:
  "map fst progress_certificates = [1..79]"
  unfolding progress_certificates_def by (simp add: upto_rec1)

lemma float64_0 [simp]: "float64 0 = 0"
  by (simp add: float64_def)

lemma round_trip_80:
  assumes "0 \<le> k" and "k < 80"
  shows "float64 (float64 (of_int k / 80) * 80) = of_int k"
proof (cases "k = 0")
  case True
  then show ?thesis
    by simp
next
  case False
  with assms have "k \<in> set [1..79]"
    by simp
  then have "k \<in> fst ` set progress_certificates"
    by (simp only: progress_certificates_complete [symmetric] set_map)
  then obtain m s e where "(k, m, s, e) \<in> set progress_certificates"
    by force
  with progress_certificates_certified have c: "certified k m s e"
    by (auto simp: list_all_iff)
  show ?thesis
    by (simp only: certified_first_rounding [OF c] certified_second_rounding [OF c])
qed

lemma scene_progress_nonneg: "0 \<le> scene_progress i t"
  by (simp add: scene_progress_def float64_nonneg)

lemma scene_progress_mono:
  assumes "i \<le> j"
  shows "scene_progress i t \<le> scene_progress j t"
proof -
  have "(of_nat i :: rat) / of_nat t \<le> of_nat j / of_nat t"
    using assms by (simp add: divide_right_mono)
  then have "float64 (of_nat i / of_nat t) \<le> float64 (of_nat j / of_nat t)"
    by (intro float64_mono) simp_all
  then have "float64 (float64 (of_nat i / of_nat t) * 80) \<le> float64 (float64 (of_nat j / of_nat t) * 80)"
    by (intro float64_mono mult_nonneg_nonneg float64_nonneg) simp_all
  then show ?thesis
    unfolding scene_progress_def by (rule floor_mono)
qed

lemma scene_progress_le_80:
  assumes "i \<le> t"
  shows "scene_progress i t \<le> 80"
proof -
  have "(of_nat i :: rat) / of_nat t \<le> 1"
    using assms by (cases "t = 0") simp_all
  then have "float64 (of_nat i / of_nat t) \<le> float64 1"
    by (intro float64_mono) simp_all
  then have "float64 (of_nat i / of_nat t) * 80 \<le> 80"
    by (simp add: float64_1)
  then have "float64 (float64 (of_nat i / of_nat t) * 80) \<le> float64 80"
    by (intro float64_mono mult_nonneg_nonneg float64_nonneg) simp_all
  then have "\<lfloor>float64 (float64 (of_nat i / of_nat t) * 80)\<rfloor> \<le> \<lfloor>80::rat\<rfloor>"
    unfolding float64_80 by (rule floor_mono)
  then show ?thesis
    by (simp add: scene_progress_def)
qed

lemma scene_progress_floor:
  assumes t: "0 < t" "t \<le> 2 ^ 45" and i: "i < t"
  shows "scene_progress i t = (80 * int i) div int t"
proof -
  define k r where "k = (80 * int i) div int t" and "r = (80 * int i) mod int t"
  have kr: "80 * int i = k * int t + r"
    by (simp add: k_def r_def)
  have r: "0 \<le> r" "r < int t"
    using t by (simp_all add: r_def)
  have k: "0 \<le> k" "k < 80"
  proof -
    show "0 \<le> k"
      using t by (simp add: k_def pos_imp_zdiv_nonneg_iff)
    have "80 * int i < 80 * int t"
      using i by simp
    with kr r(1) have "k * int t < 80 * int t"
      by linarith
    then show "k < 80"
      using t by simp
  qed
  define a :: rat where "a = 80 * (of_nat i / of_nat t)"
  have T: "(0::rat) < of_nat t"
    using t by simp
  have "(of_int (80 * int i) :: rat) = of_int (k * int t + r)"
    by (simp only: kr)
  then have "80 * (of_nat i :: rat) = of_int k * of_nat t + of_int r"
    by simp
  then have a: "a = of_int k + of_int r / of_nat t"
    using T by (simp add: a_def field_simps)
  show ?thesis
  proof (cases "r = 0")
    case True
    with a have "80 * (of_nat i / of_nat t) = (of_int k :: rat)"
      by (simp add: a_def)
    then have "of_nat i / of_nat t = (of_int k :: rat) / 80"
      by linarith
    then have "scene_progress i t = \<lfloor>float64 (float64 (of_int k / 80) * 80)\<rfloor>"
      unfolding scene_progress_def by (simp only:)
    also have "\<dots> = k"
      by (simp add: round_trip_80 [OF k])
    finally show ?thesis
      by (simp add: k_def)
  next
    case False
    with r have r1: "1 \<le> r" "r \<le> int t - 1"
      by simp_all
    define eps :: rat where "eps = 1 / 2 ^ 53"
    define x :: rat where "x = of_nat i / of_nat t"
    define y where "y = float64 x * 80"
    define z where "z = float64 y"
    have inv: "256 * eps \<le> 1 / of_nat t"
    proof -
      have "(of_nat t :: rat) \<le> of_nat (2 ^ 45)"
        using t(2) by (simp only: of_nat_le_iff)
      then have "1 / (2 ^ 45 :: rat) \<le> 1 / of_nat t"
        using T by (intro divide_left_mono) simp_all
      then show ?thesis
        by (simp add: eps_def)
    qed
    have lo: "of_int k + 1 / of_nat t \<le> a"
    proof -
      have "(1::rat) \<le> of_int r"
        using r1(1) by simp
      then have "1 / of_nat t \<le> (of_int r :: rat) / of_nat t"
        using T by (intro divide_right_mono) simp_all
      then show ?thesis
        by (simp add: a)
    qed
    have hi: "a \<le> of_int k + 1 - 1 / of_nat t"
    proof -
      have "(of_int r :: rat) \<le> of_int (int t - 1)"
        using r1(2) by (simp only: of_int_le_iff)
      then have "(of_int r :: rat) \<le> of_nat t - 1"
        by simp
      then have "(of_int r :: rat) / of_nat t \<le> (of_nat t - 1) / of_nat t"
        using T by (intro divide_right_mono) simp_all
      also have "\<dots> = 1 - 1 / of_nat t"
        using T by (simp add: field_simps)
      finally show ?thesis
        by (simp add: a)
    qed
    have a80: "a < 80"
    proof -
      have "(of_int k :: rat) \<le> 79"
        using k(2) by simp
      moreover have "(0::rat) < 1 / of_nat t"
        using T by simp
      ultimately show ?thesis
        using hi by linarith
    qed
    have a0: "0 < a"
    proof -
      have "(0::rat) \<le> of_int k" "(0::rat) < 1 / of_nat t"
        using k(1) T by simp_all
      with lo show ?thesis
        by linarith
    qed
    have x: "0 < x" and ax: "a = 80 * x"
      using a0 by (simp_all add: a_def x_def)
    from float64_error [OF x] have "\<bar>float64 x - x\<bar> \<le> x * eps"
      by (simp add: eps_def)
    then have "\<bar>float64 x - x\<bar> * 80 \<le> x * eps * 80"
      by simp
    then have "\<bar>y - a\<bar> \<le> a * eps"
      by (simp add: y_def ax abs_mult [symmetric] left_diff_distrib del: abs_mult)
    moreover have "a * eps \<le> 80 * eps"
      using a80 by (simp add: eps_def)
    ultimately have ya: "\<bar>y - a\<bar> \<le> 80 * eps"
      by linarith
    have eps: "0 < eps" "eps \<le> 1 / 256"
      by (simp_all add: eps_def)
    have "256 * eps \<le> 1"
      using eps by simp
    have y0: "0 < y"
    proof -
      have "256 * eps \<le> a"
        using lo inv k(1) by (simp add: order_trans [OF inv] add_increasing)
      with ya eps show ?thesis
        by linarith
    qed
    have y81: "y \<le> 81"
      using ya a80 eps by linarith
    from float64_error [OF y0] have "\<bar>z - y\<bar> \<le> y * eps"
      by (simp add: z_def eps_def)
    moreover have "y * eps \<le> 81 * eps"
      using y81 eps by simp
    ultimately have zy: "\<bar>z - y\<bar> \<le> 81 * eps"
      by linarith
    from ya zy have za: "\<bar>z - a\<bar> \<le> 161 * eps"
      by linarith
    have "of_int k \<le> z" "z < of_int k + 1"
      using za lo hi inv eps by linarith+
    then have "\<lfloor>z\<rfloor> = k"
      by (intro floor_unique) simp_all
    then show ?thesis
      by (simp add: scene_progress_def z_def y_def x_def k_def)
  qed
qed

lemma loop_writes_concat:
  "loop_writes tot i n = concat (map (scene_writes tot) [i..<i + n])"
proof (induction n arbitrary: i)
  case 0
  then show ?case by simp
next
  case (Suc n)
  have "[i..<i + Suc n] = i # [Suc i..<Suc i + n]"
    by (simp add: upt_conv_Cons)
  then show ?case
    using Suc [of "Suc i"] by simp
qed

lemma progress_values_loop_writes:
  "progress_values (loop_writes tot i n) = map (\<lambda>k. scene_progress k tot) [i..<i + n]"
proof (induction n arbitrary: i)
  case 0
  then show ?case by simp
next
  case (Suc n)
  have "[i..<i + Suc n] = i # [Suc i..<Suc i + n]"
    by (simp add: upt_conv_Cons)
  then show ?case
    using Suc [of "Suc i"] by (simp add: scene_writes_def)
qed

lemma loop_writes_schedule:
  assumes "n \<le> tot" and "tot \<le> 2 ^ 45"
  shows "loop_writes tot 0 n = concat (map (schedule tot) [0..<n])"
proof -
  have sw: "scene_writes tot i = schedule tot i" if "i \<in> set [0..<n]" for i
  proof -
    from that assms(1) have "i < tot"
      by simp
    then have "scene_progress i tot = (80 * int i) div int tot"
      using assms(2) by (intro scene_progress_floor) simp_all
    then show ?thesis
      by (simp add: scene_writes_def schedule_def)
  qed
  have eq: "map (scene_writes tot) [0..<n] = map (schedule tot) [0..<n]"
    by (rule map_cong [OF refl sw])
  have "loop_writes tot 0 n = concat (map (scene_writes tot) [0..<n])"
    using loop_writes_concat [of tot 0 n] by simp
  also have "\<dots> = concat (map (schedule tot) [0..<n])"
    by (simp only: eq)
  finally show ?thesis .
qed

text \<open>The three ways a run of \<^verbatim>\<open>process_render_all_and_combine\<close> ends.\<close>

lemma render_all_outcome:
  fixes env :: env
  assumes project: "projects_db st project_id = Some project"
    and job: "render_jobs st job_id = Some j"
  defines "st' \<equiv> process_render_all_and_combine env job_id project_id st"
  defines "tot \<equiv> length (scene_refs st project)"
  shows "(\<exists>n m j'. n \<le> tot
            \<and> job_writes job_id (trace st st') =
                 loop_writes tot 0 n @ [Status ''failed'', Error_message m]
            \<and> render_jobs st' job_id = Some j' \<and> j_status j' = ''failed'')
       \<or> (\<exists>m j'. job_writes job_id (trace st st') =
                 loop_writes tot 0 tot
                   @ [Status ''Combining scenes'', Progress 85,
                      Status ''failed'', Error_message m]
            \<and> render_jobs st' job_id = Some j' \<and> j_status j' = ''failed'')
       \<or> (\<exists>url j'. job_writes job_id (trace st st') =
                 loop_writes tot 0 tot
                   @ [Status ''Combining scenes'', Progress 85,
                      Progress 100, Status ''completed'', Output_url url]
            \<and> render_jobs st' job_id = Some j' \<and> j_status j' = ''completed''
            \<and> j_progress j' = 100)"
proof -
  obtain exc st1 where loop:
    "render_loop env job_id (length (scene_refs st project)) 0 (scene_refs st project) st
       = (exc, st1)"
    by (cases "render_loop env job_id (length (scene_refs st project)) 0
          (scene_refs st project) st") auto
  from render_loop_effects [OF loop] obtain X n where
    X: "effects st1 = effects st @ X" "n \<le> tot" "job_writes job_id X = loop_writes tot 0 n"
      "exc = None \<longrightarrow> n = tot"
    unfolding tot_def by auto
  have "render_jobs st job_id \<noteq> None"
    using job by simp
  from render_loop_keeps_job [OF loop this] obtain j1 where j1: "render_jobs st1 job_id = Some j1"
    by auto
  define urls where "urls = map (\<lambda>ref. s_video_url (scene_of st1 ref)) (scene_refs st project)"
  define outcome where "outcome = compile_project env urls project_id (p_audio_url project)"
  note eff = process_render_all_and_combine_effects_explicit [OF project job loop X(1),
      folded urls_def outcome_def st'_def]
  note tr = trace_append [OF eff]
  show ?thesis
  proof (cases exc)
    case (Some m)
    have "render_jobs st' job_id = Some (j1\<lparr>j_status := ''failed'', j_error_message := Some m\<rparr>)"
      using project job loop Some j1
      by (simp add: st'_def process_render_all_and_combine_def Let_def)
    then have "\<exists>j'. render_jobs st' job_id = Some j' \<and> j_status j' = ''failed''"
      by simp
    moreover have "job_writes job_id (trace st st') =
        loop_writes tot 0 n @ [Status ''failed'', Error_message m]"
      by (simp add: tr Some X(3))
    ultimately show ?thesis
      using X(2) by blast
  next
    case None
    with X(4) have n: "n = tot"
      by simp
    show ?thesis
    proof (cases "snd outcome")
      case (Inl m)
      have "render_jobs st' job_id = Some (j1\<lparr>j_status := ''failed'', j_progress := 85,
          j_error_message := Some m\<rparr>)"
        using project job loop None j1 Inl
        by (simp add: st'_def process_render_all_and_combine_def Let_def urls_def outcome_def)
      then have "\<exists>j'. render_jobs st' job_id = Some j' \<and> j_status j' = ''failed''"
        by simp
      moreover have "job_writes job_id (trace st st') =
          loop_writes tot 0 tot
            @ [Status ''Combining scenes'', Progress 85, Status ''failed'', Error_message m]"
        by (simp add: tr None Inl X(3) n)
      ultimately show ?thesis
        by blast
    next
      case (Inr url)
      have "render_jobs st' job_id = Some (j1\<lparr>j_status := ''completed'', j_progress := 100,
          j_output_url := Some url\<rparr>)"
        using project job loop None j1 Inr
        by (simp add: st'_def process_render_all_and_combine_def Let_def urls_def outcome_def)
      then have "\<exists>j'. render_jobs st' job_id = Some j' \<and> j_status j' = ''completed''
          \<and> j_progress j' = 100"
        by simp
      moreover have "job_writes job_id (trace st st') =
          loop_writes tot 0 tot
            @ [Status ''Combining scenes'', Progress 85,
               Progress 100, Status ''completed'', Output_url url]"
        by (simp add: tr None Inr X(3) n)
      ultimately show ?thesis
        by blast
    qed
  qed
qed

lemma sorted_scene_progress:
  assumes "n \<le> tot"
  shows "sorted (map (\<lambda>k. scene_progress k tot) [0..<n])"
    and "\<forall>v \<in> set (map (\<lambda>k. scene_progress k tot) [0..<n]). 0 \<le> v \<and> v \<le> 80"
proof -
  have "sorted_wrt (\<le>) [0..<n]"
    by simp
  then have "sorted_wrt (\<lambda>a b. scene_progress a tot \<le> scene_progress b tot) [0..<n]"
    by (rule sorted_wrt_mono_rel [rotated]) (simp add: scene_progress_mono)
  then show "sorted (map (\<lambda>k. scene_progress k tot) [0..<n])"
    by (simp only: sorted_map)
  show "\<forall>v \<in> set (map (\<lambda>k. scene_progress k tot) [0..<n]). 0 \<le> v \<and> v \<le> 80"
    using assms by (auto simp: scene_progress_nonneg intro!: scene_progress_le_80)
qed

lemma sorted_render_all_progress:
  assumes "n \<le> tot" and "rest = [] \<or> rest = [85] \<or> rest = [85, 100]"
  shows "sorted (0 # map (\<lambda>k. scene_progress k tot) [0..<n] @ rest)"
proof -
  note sp = sorted_scene_progress [OF assms(1)]
  have "sorted rest" "\<forall>v \<in> set rest. 85 \<le> v"
    using assms(2) by auto
  with sp have "sorted (map (\<lambda>k. scene_progress k tot) [0..<n] @ rest)"
    by (fastforce simp: sorted_append)
  moreover have "\<forall>v \<in> set (map (\<lambda>k. scene_progress k tot) [0..<n] @ rest). 0 \<le> v"
    using sp(2) assms(2) by auto
  ultimately show ?thesis
    by simp
qed

text \<open>
  C5. Every job is created with progress 0, and the values that the run of its task
  then assigns to the progress never decrease, whatever the kind of the task and
  however the run ends. When a run of \<^verbatim>\<open>process_render_all_and_combine\<close> leaves the job
  with status \<^verbatim>\<open>completed\<close>, the last value assigned is 100, and it is the progress of
  the job.
\<close>

theorem progress_never_decreases:
  "sorted (j_progress (new_job (task_job t) scene_id parent)
      # progress_values (job_writes (task_job t) (trace st (run_task env t st))))
   \<and> (projects_db st project_id = Some project \<and> render_jobs st job_id = Some j
        \<and> render_jobs (process_render_all_and_combine env job_id project_id st) job_id = Some j'
        \<and> j_status j' = ''completed''
      \<longrightarrow> last (progress_values (job_writes job_id
              (trace st (process_render_all_and_combine env job_id project_id st)))) = 100
          \<and> j_progress j' = 100)"
proof (intro conjI impI)
  show "sorted (j_progress (new_job (task_job t) scene_id parent)
      # progress_values (job_writes (task_job t) (trace st (run_task env t st))))"
  proof (cases t)
    case (Process_render job_id scene_id)
    show ?thesis
    proof (cases "render_jobs st job_id = None \<or> scenes_db st scene_id = None")
      case True
      then show ?thesis
        by (simp add: Process_render process_render_def new_job_def)
    next
      case False
      then have "render_jobs st job_id \<noteq> None" "scenes_db st scene_id \<noteq> None"
        by simp_all
      from trace_append [OF process_render_effects [OF this]] show ?thesis
        by (simp add: Process_render new_job_def split: sum.splits)
    qed
  next
    case (Process_export job_id project_id)
    show ?thesis
    proof (cases "projects_db st project_id = None \<or> render_jobs st job_id = None")
      case True
      then show ?thesis
        by (auto simp: Process_export process_export_def new_job_def split: option.splits)
    next
      case False
      then obtain project j where "projects_db st project_id = Some project"
        "render_jobs st job_id = Some j"
        by auto
      from trace_append [OF process_export_effects_explicit [OF this]] show ?thesis
        by (simp add: Process_export new_job_def split: sum.splits)
    qed
  next
    case (Process_render_all_and_combine job_id project_id)
    show ?thesis
    proof (cases "projects_db st project_id = None \<or> render_jobs st job_id = None")
      case True
      then show ?thesis
        by (auto simp: Process_render_all_and_combine process_render_all_and_combine_def
            new_job_def split: option.splits)
    next
      case False
      then obtain project j where pj: "projects_db st project_id = Some project"
        "render_jobs st job_id = Some j"
        by auto
      let ?tot = "length (scene_refs st project)"
      let ?pv = "progress_values (job_writes job_id
          (trace st (process_render_all_and_combine env job_id project_id st)))"
      from render_all_outcome [OF pj, of env] have
        "\<exists>n rest. n \<le> ?tot \<and> (rest = [] \<or> rest = [85] \<or> rest = [85, 100])
           \<and> ?pv = map (\<lambda>k. scene_progress k ?tot) [0..<n] @ rest"
      proof (elim disjE exE conjE)
        fix n m j'
        assume "n \<le> ?tot" "job_writes job_id
            (trace st (process_render_all_and_combine env job_id project_id st)) =
          loop_writes ?tot 0 n @ [Status ''failed'', Error_message m]"
        then show ?thesis
          by (intro exI [where x = n] exI [where x = "[]"])
            (simp add: progress_values_loop_writes)
      next
        fix m j'
        assume "job_writes job_id
            (trace st (process_render_all_and_combine env job_id project_id st)) =
          loop_writes ?tot 0 ?tot
            @ [Status ''Combining scenes'', Progress 85, Status ''failed'', Error_message m]"
        then show ?thesis
          by (intro exI [where x = ?tot] exI [where x = "[85]"])
            (simp add: progress_values_loop_writes)
      next
        fix url j'
        assume "job_writes job_id
            (trace st (process_render_all_and_combine env job_id project_id st)) =
          loop_writes ?tot 0 ?tot
            @ [Status ''Combining scenes'', Progress 85,
               Progress 100, Status ''completed'', Output_url url]"
        then show ?thesis
          by (intro exI [where x = ?tot] exI [where x = "[85, 100]"])
            (simp add: progress_values_loop_writes)
      qed
      then obtain n rest where "n \<le> ?tot" "rest = [] \<or> rest = [85] \<or> rest = [85, 100]"
        "?pv = map (\<lambda>k. scene_progress k ?tot) [0..<n] @ rest"
        by blast
      with sorted_render_all_progress [of n ?tot rest] show ?thesis
        by (simp add: Process_render_all_and_combine new_job_def)
    qed
  qed
next
  assume a: "projects_db st project_id = Some project \<and> render_jobs st job_id = Some j
        \<and> render_jobs (process_render_all_and_combine env job_id project_id st) job_id = Some j'
        \<and> j_status j' = ''completed''"
  then have pj: "projects_db st project_id = Some project" "render_jobs st job_id = Some j"
    by simp_all
  from render_all_outcome [OF pj, of env] a
  have "\<exists>url. job_writes job_id
            (trace st (process_render_all_and_combine env job_id project_id st)) =
          loop_writes (length (scene_refs st project)) 0 (length (scene_refs st project))
            @ [Status ''Combining scenes'', Progress 85,
               Progress 100, Status ''completed'', Output_url url]
          \<and> j_progress j' = 100"
    by auto
  then show "last (progress_values (job_writes job_id
              (trace st (process_render_all_and_combine env job_id project_id st)))) = 100"
    and "j_progress j' = 100"
    by auto
qed

text \<open>
  C6. In a run of \<^verbatim>\<open>process_render_all_and_combine\<close> over \<open>tot\<close> scenes the
  assignments to the job are, for each scene started, the label of the scene and the
  progress \<open>floor (i / tot * 80)\<close>, in the order of the scenes; then, when every scene
  is rendered, the label of the combine phase and the progress 85; then, when the
  combine succeeds, the progress 100, the status \<^verbatim>\<open>completed\<close> and the output url. A
  run that leaves the job \<^verbatim>\<open>completed\<close> went through all of these, and the progress of
  the job is 100. The quotient is computed in binary64 by the code; the result is the
  exact floor for every number of scenes up to \<open>2^45\<close>.
\<close>

theorem render_all_progress_schedule:
  assumes "projects_db st project_id = Some project" and "render_jobs st job_id = Some j"
    and "tot = length (scene_refs st project)" and "tot \<le> 2 ^ 45"
    and "st' = process_render_all_and_combine env job_id project_id st"
  shows "((\<exists>n m. n \<le> tot
             \<and> job_writes job_id (trace st st') =
                  concat (map (schedule tot) [0..<n]) @ [Status ''failed'', Error_message m])
          \<or> (\<exists>m. job_writes job_id (trace st st') =
                  concat (map (schedule tot) [0..<tot])
                    @ [Status ''Combining scenes'', Progress 85,
                       Status ''failed'', Error_message m])
          \<or> (\<exists>url. job_writes job_id (trace st st') =
                  concat (map (schedule tot) [0..<tot])
                    @ [Status ''Combining scenes'', Progress 85,
                       Progress 100, Status ''completed'', Output_url url]))
       \<and> (\<forall>j'. render_jobs st' job_id = Some j' \<and> j_status j' = ''completed'' \<longrightarrow>
             j_progress j' = 100
             \<and> (\<exists>url. job_writes job_id (trace st st') =
                  concat (map (schedule tot) [0..<tot])
                    @ [Status ''Combining scenes'', Progress 85,
                       Progress 100, Status ''completed'', Output_url url]))"
proof -
  have full: "loop_writes tot 0 tot = concat (map (schedule tot) [0..<tot])"
    using assms(4) by (intro loop_writes_schedule) simp_all
  have part: "loop_writes tot 0 n = concat (map (schedule tot) [0..<n])" if "n \<le> tot" for n
    using that assms(4) by (rule loop_writes_schedule)
  from render_all_outcome [OF assms(1,2), of env, folded assms(3) assms(5)]
  show ?thesis
  proof (elim disjE exE conjE)
    fix n m j'
    assume "n \<le> tot" and w: "job_writes job_id (trace st st') =
        loop_writes tot 0 n @ [Status ''failed'', Error_message m]"
      and j': "render_jobs st' job_id = Some j'" "j_status j' = ''failed''"
    from w part [OF \<open>n \<le> tot\<close>] have "job_writes job_id (trace st st') =
        concat (map (schedule tot) [0..<n]) @ [Status ''failed'', Error_message m]"
      by simp
    with \<open>n \<le> tot\<close> j' show ?thesis
      by auto
  next
    fix m j'
    assume w: "job_writes job_id (trace st st') =
        loop_writes tot 0 tot
          @ [Status ''Combining scenes'', Progress 85, Status ''failed'', Error_message m]"
      and j': "render_jobs st' job_id = Some j'" "j_status j' = ''failed''"
    from w full have "job_writes job_id (trace st st') =
        concat (map (schedule tot) [0..<tot])
          @ [Status ''Combining scenes'', Progress 85, Status ''failed'', Error_message m]"
      by simp
    with j' show ?thesis
      by auto
  next
    fix url j'
    assume w: "job_writes job_id (trace st st') =
        loop_writes tot 0 tot
          @ [Status ''Combining scenes'', Progress 85,
             Progress 100, Status ''completed'', Output_url url]"
      and j': "render_jobs st' job_id = Some j'" "j_status j' = ''completed''"
        "j_progress j' = 100"
    from w full have "job_writes job_id (trace st st') =
        concat (map (schedule tot) [0..<tot])
          @ [Status ''Combining scenes'', Progress 85,
             Progress 100, Status ''completed'', Output_url url]"
      by simp
    with j' show ?thesis
      by auto
  qed
qed

lemma example_render_ok:
  "render_scene example_env_ok (Some ''from manim import *'') sid =
     Inr \<lparr> video_url = ''/outputs/'' @ sid @ ''.mp4'', thumbnail_url = None, duration = 3 \<rparr>"
  by (simp add: render_scene_def example_env_ok_def example_env_def get_video_duration_def
      path_join_def)

lemma example_compile_ok:
  "snd (compile_project example_env_ok
          [Some ''/outputs/s1.mp4'', Some ''/outputs/s2.mp4'', Some ''/outputs/s3.mp4'']
          ''p1'' None) = Inr ''/outputs/p1_final.mp4''"
  by (simp add: compile_project_cases artifacts_def example_env_ok_def example_env_def
      video_path_of_def path_join_def basename_def)

lemma example_completed_job:
  "\<exists>j'. render_jobs example_completed_run ''j1'' = Some j' \<and> j_status j' = ''completed''"
proof -
  have p: "projects_db example_state ''p1'' = Some example_project"
    by (simp add: example_state_def)
  have s: "scene_of example_state ''s1'' = example_scene ''s1'' 0"
    "scene_of example_state ''s2'' = example_scene ''s2'' 1"
    "scene_of example_state ''s3'' = example_scene ''s3'' 2"
    by (simp_all add: scene_of_def example_state_def)
  have j: "render_jobs example_state ''j1'' = Some (new_job ''j1'' None (Some ''p1''))"
    by (simp add: example_state_def)
  have a: "p_audio_url example_project = None"
    by (simp add: example_project_def)
  show ?thesis
    by (simp add: example_completed_run_def process_render_all_and_combine_def p j a
        example_refs Let_def s example_scene_def example_render_ok rendered_def
        example_compile_ok)
qed

theorem progress_never_decreases_witness:
  "sorted (0 # progress_values (job_writes ''j1'' (trace example_state example_completed_run)))
   \<and> last (progress_values (job_writes ''j1'' (trace example_state example_completed_run))) = 100"
proof -
  have p: "projects_db example_state ''p1'' = Some example_project"
    and j: "render_jobs example_state ''j1'' = Some (new_job ''j1'' None (Some ''p1''))"
    by (simp_all add: example_state_def)
  from example_completed_job obtain j' where
    j': "render_jobs example_completed_run ''j1'' = Some j'" "j_status j' = ''completed''"
    by blast
  from progress_never_decreases
    [where t = "Process_render_all_and_combine ''j1'' ''p1''" and st = example_state
      and env = example_env_ok and project_id = "''p1''" and project = example_project
      and job_id = "''j1''" and j = "new_job ''j1'' None (Some ''p1'')" and j' = j'
      and scene_id = None and parent = "Some ''p1''"]
    p j j'
  show ?thesis
    by (simp add: example_completed_run_def new_job_def)
qed

theorem render_all_progress_schedule_witness:
  "\<exists>url. job_writes ''j1'' (trace example_state example_completed_run) =
     [Status ''Rendering scene 1/3'', Progress 0,
      Status ''Rendering scene 2/3'', Progress 26,
      Status ''Rendering scene 3/3'', Progress 53,
      Status ''Combining scenes'', Progress 85,
      Progress 100, Status ''completed'', Output_url url]"
proof -
  have p: "projects_db example_state ''p1'' = Some example_project"
    and j: "render_jobs example_state ''j1'' = Some (new_job ''j1'' None (Some ''p1''))"
    by (simp_all add: example_state_def)
  have t: "3 = length (scene_refs example_state example_project)" "(3::nat) \<le> 2 ^ 45"
    by (simp_all add: example_refs)
  from example_completed_job obtain j' where
    j': "render_jobs example_completed_run ''j1'' = Some j'" "j_status j' = ''completed''"
    by blast
  have n: "str_nat (Suc 0) = ''1''" "str_nat 2 = ''2''" "str_nat 3 = ''3''"
    "str_nat (Suc (Suc 0)) = ''2''"
    by (simp_all add: str_nat.simps digit_char_def)
  have "[0..<3] = [0, 1, 2]"
    by (simp add: upt_rec)
  then have sched: "concat (map (schedule 3) [0..<3]) =
      [Status ''Rendering scene 1/3'', Progress 0,
       Status ''Rendering scene 2/3'', Progress 26,
       Status ''Rendering scene 3/3'', Progress 53]"
    by (simp add: schedule_def n)
  from render_all_progress_schedule [OF p j t example_completed_run_def] j'
  have "\<exists>url. job_writes ''j1'' (trace example_state example_completed_run) =
      concat (map (schedule 3) [0..<3])
        @ [Status ''Combining scenes'', Progress 85,
           Progress 100, Status ''completed'', Output_url url]"
    by blast
  then show ?thesis
    by (simp only: sched append_Cons append_Nil)
qed


end
